theory Spec2Isabelle
  imports Complex_Main "HOL-Library.AList"
begin

section \<open>The argument parser of clime: data model\<close>

text \<open>
  The development embeds the class \<open>ArgsParser\<close> (constructor and \<open>parse\<close> with its
  five local functions \<open>consumeFlags\<close>, \<open>consumeToggleOrOption\<close>, \<open>consumeOption\<close>,
  \<open>consumeArgument\<close> and \<open>castArgument\<close>).

  Conventions of the embedding.
  \<^item> A string is a \<open>char list\<close>; a character stands for one code unit of the source
    string, in the range U+0000 to U+00FF.
  \<^item> A \<open>HashTable<T>\<close> is an object created by the literal \<open>{}\<close> and written by
    assignment only. It is modelled by the association list of its own properties, in
    insertion order; see the subsection on tables for the two property names that such an
    object does not treat as ordinary keys, \<open>__proto__\<close> and \<open>hasOwnProperty\<close>.
  \<^item> A value that can be \<open>undefined\<close> where the code tests for it is an \<open>option\<close>.
  \<^item> A \<open>throw\<close> is the left injection of a sum. Besides \<open>UsageError\<close> the model keeps the
    \<open>TypeError\<close> the runtime raises when a property of \<open>undefined\<close> is read or written.
\<close>

subsection \<open>Values\<close>

text \<open>
  A number of the language: not-a-number, the two infinities, or a finite value (the two
  zeros are one value here; they agree on \<open>isNaN\<close> and on \<open>Boolean\<close>).
\<close>

datatype jsnum = NaN | PosInfinity | NegInfinity | Finite rat

text \<open>
  A value of the language, as far as the parser tells values apart: \<open>undefined\<close>, the
  three kinds of primitive values it produces, and any other object, which the parser only
  stores (a reference, standing for an ordinary object: not \<open>null\<close>, inheriting from
  \<open>Object.prototype\<close>, with no accessor or read-only property).
\<close>

datatype jsvalue =
    Undefined
  | VString string
  | VNumber jsnum
  | VBoolean bool
  | VObject nat

definition isNaN :: "jsnum \<Rightarrow> bool" where
  "isNaN n = (n = NaN)"

text \<open>\<open>Boolean(n)\<close> on a number: false for not-a-number and for zero, true otherwise.\<close>

fun Boolean_of :: "jsnum \<Rightarrow> bool" where
  "Boolean_of NaN = False"
| "Boolean_of (Finite q) = (q \<noteq> 0)"
| "Boolean_of PosInfinity = True"
| "Boolean_of NegInfinity = True"

text \<open>
  \<open>String.prototype.toLowerCase\<close> on code units below U+0100: the letters \<open>A\<close> to \<open>Z\<close>
  and the capital letters U+00C0 to U+00DE (U+00D7, the multiplication sign, apart) move
  up by 32; every other code unit stays.
\<close>

definition toLowerCase_char :: "char \<Rightarrow> char" where
  "toLowerCase_char c =
     (let n = of_char c :: nat
      in if (65 \<le> n \<and> n \<le> 90) \<or> (192 \<le> n \<and> n \<le> 222 \<and> n \<noteq> 215)
         then char_of (n + 32) else c)"

definition toLowerCase :: "string \<Rightarrow> string" where
  "toLowerCase s = map toLowerCase_char s"

text \<open>\<open>xs.join(sep)\<close> on an array of strings.\<close>

fun join :: "string \<Rightarrow> string list \<Rightarrow> string" where
  "join sep [] = []"
| "join sep [x] = x"
| "join sep (x # y # ys) = x @ sep @ join sep (y # ys)"

text \<open>The decimal rendering of a non-negative integer, as a template literal prints it.\<close>

definition digit_char :: "nat \<Rightarrow> char" where
  "digit_char d = ''0123456789'' ! d"

function show_nat :: "nat \<Rightarrow> string" where
  "show_nat n = (if n < 10 then [digit_char n] else show_nat (n div 10) @ [digit_char (n mod 10)])"
  by pat_completeness auto
termination
  by (relation "measure (\<lambda>n. n)") auto

declare show_nat.simps [simp del]

text \<open>\<open>s[i]\<close>: the code unit at index \<open>i\<close>, \<open>undefined\<close> beyond the end.\<close>

definition char_at :: "string \<Rightarrow> nat \<Rightarrow> char option" where
  "char_at s i = (if i < length s then Some (s ! i) else None)"

text \<open>
  \<open>Object.keys(m)\<close>: the keys that are array indices (the canonical decimal form of an
  integer below \<open>2^32 - 1\<close>) come first, in ascending numeric order, then every other key
  in insertion order.
\<close>

definition is_digit :: "char \<Rightarrow> bool" where
  "is_digit c = (let n = of_char c :: nat in 48 \<le> n \<and> n \<le> 57)"

definition decimal_value :: "string \<Rightarrow> nat" where
  "decimal_value s = foldl (\<lambda>acc c. 10 * acc + (of_char c - 48)) 0 s"

definition is_array_index :: "string \<Rightarrow> bool" where
  "is_array_index s =
     (s \<noteq> [] \<and> list_all is_digit s \<and> (s = ''0'' \<or> char_at s 0 \<noteq> Some CHR ''0'')
      \<and> decimal_value s < 4294967295)"

definition Object_keys :: "(string \<times> 'v) list \<Rightarrow> string list" where
  "Object_keys m =
     sort_key decimal_value (filter is_array_index (map fst m))
     @ filter (\<lambda>k. \<not> is_array_index k) (map fst m)"

subsection \<open>Tables\<close>

text \<open>
  The four tables of the parser are objects created by \<open>{}\<close>, so they inherit from
  \<open>Object.prototype\<close>. Two property names are not ordinary keys of such an object.

  \<^item> \<open>__proto__\<close> is an accessor property of \<open>Object.prototype\<close>: the assignment
    \<open>m["__proto__"] = v\<close> calls its setter, which makes \<open>v\<close> the prototype of \<open>m\<close> when \<open>v\<close>
    is an object and does nothing otherwise. In neither case does \<open>m\<close> get an own property,
    so the name is never among the own properties of a table, \<open>m.hasOwnProperty("__proto__")\<close>
    is false and \<open>Object.keys(m)\<close> does not list it. The read \<open>m["__proto__"]\<close> gives the
    prototype.
  \<^item> \<open>hasOwnProperty\<close> is the method that the tests \<open>m.hasOwnProperty(k)\<close> call. It is
    looked up on \<open>m\<close> first: once \<open>m\<close> has an own property of that name, the call applies the
    value stored there, a definition or a string, and the runtime raises a \<open>TypeError\<close>.

  Every other name, also one that \<open>Object.prototype\<close> has a method for (\<open>toString\<close>,
  \<open>constructor\<close>), is an ordinary key: the assignment creates or updates an own property.
\<close>

text \<open>
  \<open>m[k] = v\<close> on the own properties of a table: an existing key keeps its place, a new
  one goes last, and the key \<open>__proto__\<close> adds nothing.
\<close>

definition assign_property :: "string \<Rightarrow> 'v \<Rightarrow> (string \<times> 'v) list \<Rightarrow> (string \<times> 'v) list" where
  "assign_property k v m = (if k = ''__proto__'' then m else AList.update k v m)"

subsection \<open>Schema\<close>

record Context =
  cwd :: string
  commands :: "string list"

text \<open>
  Modelled from the spec: the module \<open>./object\<close> with \<open>isStringCastable\<close> and the
  declaration of \<open>Constructor\<close> are not among the sources. A type tag is one of the three
  built-in constructors the \<open>switch\<close> of \<open>castArgument\<close> compares with, a custom castable type
  (\<open>isStringCastable\<close> holds; it carries its \<open>cast\<close> operation, which takes the raw token and
  the context), or anything else.
\<close>

datatype Constructor =
    String
  | Number
  | Boolean
  | Castable "string \<Rightarrow> Context \<Rightarrow> jsvalue"
  | Other

fun isStringCastable :: "Constructor \<Rightarrow> bool" where
  "isStringCastable (Castable f) = True"
| "isStringCastable _ = False"

text \<open>
  Modelled from the spec: the module \<open>./command\<close> declaring \<open>ParamDefinition\<close>,
  \<open>ParamsDefinition\<close> and \<open>OptionDefinition\<close> is not among the sources. The records hold
  the fields the parser reads. An optional boolean is its truth value; an absent default
  is \<open>Undefined\<close>; an absent flag is \<open>None\<close>.
\<close>

record ParamDefinition =
  pd_name :: string
  pd_type :: Constructor
  pd_default :: jsvalue

record ParamsDefinition =
  vd_name :: string
  vd_type :: Constructor
  vd_required :: bool

record OptionDefinition =
  od_name :: string
  od_flag :: "string option"
  od_type :: Constructor
  od_required :: bool
  od_toggle :: bool
  od_default :: jsvalue

subsection \<open>Results and errors\<close>

text \<open>
  \<open>ParsedArgs\<close>: every field is optional. \<open>res_options\<close> is \<open>undefined\<close> also in a full
  result when the schema has no option definitions; otherwise it holds the own properties
  of the options object.
\<close>

record ParsedArgs =
  res_args :: "jsvalue list option"
  res_extraArgs :: "jsvalue list option"
  res_options :: "(string \<times> jsvalue) list option"
  res_context :: "Context option"
  res_help :: "bool option"

text \<open>
  A \<open>UsageError\<close> carries its message (and the parser's help provider, always the same
  reference, left out here).
\<close>

datatype error = UsageError string | TypeError

subsection \<open>The parser instance\<close>

text \<open>
  The table \<open>optionDefinitionMap\<close> is the one table that is read at a name without a test
  before (\<open>optionDefinitionMap[name]\<close> in \<open>consumeFlags\<close>), so for it the model keeps, besides
  the own properties, the definition that an assignment at \<open>__proto__\<close> made its prototype
  (\<open>None\<close> while the prototype is \<open>Object.prototype\<close>). Of the other three tables only the
  own properties are observed.
\<close>

record definition_table =
  own_definitions :: "(string \<times> OptionDefinition) list"
  prototype_definition :: "OptionDefinition option"

definition empty_definition_table :: definition_table where
  "empty_definition_table = \<lparr>own_definitions = [], prototype_definition = None\<rparr>"

text \<open>\<open>optionDefinitionMap[name] = definition\<close>.\<close>

definition assign_definition ::
  "string \<Rightarrow> OptionDefinition \<Rightarrow> definition_table \<Rightarrow> definition_table" where
  "assign_definition name definition table =
     (if name = ''__proto__'' then table\<lparr>prototype_definition := Some definition\<rparr>
      else table\<lparr>own_definitions := AList.update name definition (own_definitions table)\<rparr>)"

record ArgsParser =
  paramDefinitions :: "ParamDefinition list option"
  paramsDefinition :: "ParamsDefinition option"
  optionDefinitions :: "OptionDefinition list option"
  requiredParamsNumber :: nat
  optionDefinitionMap :: "definition_table option"
  optionFlagMapping :: "(string \<times> string) list option"

text \<open>The local variable \<open>paramDefinitions\<close> of \<open>parse\<close>: \<open>this.paramDefinitions || []\<close>.\<close>

definition paramDefinitions_of :: "ArgsParser \<Rightarrow> ParamDefinition list" where
  "paramDefinitions_of p = (case paramDefinitions p of None \<Rightarrow> [] | Some definitions \<Rightarrow> definitions)"

text \<open>
  The body of the constructor's loop, for one definition: \<open>optionDefinitionMap[name] =
  definition\<close>, and \<open>optionFlagMapping[flag] = name\<close> when the flag is a non-empty string.
\<close>

definition register_option ::
  "(string \<times> string) list \<times> definition_table \<Rightarrow> OptionDefinition
   \<Rightarrow> (string \<times> string) list \<times> definition_table" where
  "register_option maps definition =
     (let optionFlagMapping = fst maps;
          optionDefinitionMap = assign_definition (od_name definition) definition (snd maps)
      in case od_flag definition of
           None \<Rightarrow> (optionFlagMapping, optionDefinitionMap)
         | Some flag \<Rightarrow>
             if flag \<noteq> []
             then (assign_property flag (od_name definition) optionFlagMapping,
                   optionDefinitionMap)
             else (optionFlagMapping, optionDefinitionMap))"

definition new_ArgsParser ::
  "ParamDefinition list option \<Rightarrow> ParamsDefinition option \<Rightarrow> OptionDefinition list option
   \<Rightarrow> nat \<Rightarrow> ArgsParser" where
  "new_ArgsParser pds vd ods n =
     (case ods of
        None \<Rightarrow>
          \<lparr>paramDefinitions = pds, paramsDefinition = vd, optionDefinitions = None,
           requiredParamsNumber = n, optionDefinitionMap = None, optionFlagMapping = None\<rparr>
      | Some definitions \<Rightarrow>
          (let maps = foldl register_option ([], empty_definition_table) definitions
           in \<lparr>paramDefinitions = pds, paramsDefinition = vd, optionDefinitions = ods,
               requiredParamsNumber = n, optionDefinitionMap = Some (snd maps),
               optionFlagMapping = Some (fst maps)\<rparr>))"

section \<open>The parse operation\<close>

subsection \<open>The state of one call\<close>

text \<open>
  The local variables of \<open>parse\<close> that its local functions read and write: the copy of
  the token array, the three accumulators, the table of required options still missing,
  and the parameter definitions not yet filled. The two tables are given by their own
  properties (an assignment at \<open>__proto__\<close> changes at most the prototype of
  \<open>commandOptions\<close>, which \<open>parse\<close> never reads).
\<close>

record parse_state =
  args :: "string list"
  commandArgs :: "jsvalue list"
  commandOptions :: "(string \<times> jsvalue) list option"
  commandExtraArgs :: "jsvalue list"
  requiredOptionMap :: "(string \<times> bool) list option"
  pendingParamDefinitions :: "ParamDefinition list"

text \<open>The body of the loop that fills \<open>commandOptions\<close> and \<open>requiredOptionMap\<close>.\<close>

definition init_option ::
  "(string \<times> jsvalue) list \<times> (string \<times> bool) list \<Rightarrow> OptionDefinition
   \<Rightarrow> (string \<times> jsvalue) list \<times> (string \<times> bool) list" where
  "init_option tables definition =
     (let requiredOptionMap =
            (if od_required definition
             then assign_property (od_name definition) True (snd tables)
             else snd tables);
          commandOptions =
            (if od_toggle definition
             then assign_property (od_name definition) (VBoolean False) (fst tables)
             else assign_property (od_name definition) (od_default definition) (fst tables))
      in (commandOptions, requiredOptionMap))"

text \<open>
  The state when the \<open>while\<close> loop is entered: \<open>args.concat()\<close>, empty accumulators, the
  two tables (left \<open>undefined\<close> when the parser has no option definitions) and
  \<open>paramDefinitions.concat()\<close>.
\<close>

definition initial_state :: "ArgsParser \<Rightarrow> string list \<Rightarrow> parse_state" where
  "initial_state p tokens =
     (let tables = map_option (foldl init_option ([], [])) (optionDefinitions p)
      in \<lparr>args = tokens,
          commandArgs = [],
          commandOptions = map_option fst tables,
          commandExtraArgs = [],
          requiredOptionMap = map_option snd tables,
          pendingParamDefinitions = paramDefinitions_of p\<rparr>)"

text \<open>
  The test \<open>!m || !m.hasOwnProperty(k)\<close> followed by the read \<open>m[k]\<close>, on a table that
  may be \<open>undefined\<close>: \<open>Inr None\<close> when the test holds (the table is \<open>undefined\<close> or \<open>k\<close> is
  none of its own properties), \<open>Inr (Some v)\<close> with the own property otherwise. The call
  raises a \<open>TypeError\<close> when the table has an own property \<open>hasOwnProperty\<close>.
\<close>

definition own_property :: "(string \<times> 'v) list option \<Rightarrow> string \<Rightarrow> error + 'v option" where
  "own_property m k =
     (case m of
        None \<Rightarrow> Inr None
      | Some table \<Rightarrow>
          if map_of table ''hasOwnProperty'' \<noteq> None then Inl TypeError
          else Inr (map_of table k))"

text \<open>
  The read \<open>optionDefinitionMap[name]\<close> of \<open>consumeFlags\<close>, made without a test: the own
  property of that name, and for the name \<open>__proto__\<close> the prototype. \<open>None\<close> stands for a
  value that is no definition: the table is \<open>undefined\<close>, or it has nothing of its own
  under the name (its prototype is still \<open>Object.prototype\<close>, in the case of \<open>__proto__\<close>).
  In a parser built by the constructor every name in the flag table has been assigned a
  definition, so this case does not arise there (lemma \<open>new_ArgsParser_flag_definition\<close>).
\<close>

definition read_definition :: "definition_table option \<Rightarrow> string \<Rightarrow> OptionDefinition option" where
  "read_definition m name =
     (case m of
        None \<Rightarrow> None
      | Some table \<Rightarrow>
          if name = ''__proto__'' then prototype_definition table
          else map_of (own_definitions table) name)"

subsection \<open>castArgument\<close>

text \<open>
  \<open>ToNumber\<close> is the language's coercion \<open>Number(arg)\<close> of a string, a parameter of the
  model.
\<close>

definition castArgument ::
  "(string \<Rightarrow> jsnum) \<Rightarrow> Context \<Rightarrow> string \<Rightarrow> Constructor \<Rightarrow> jsvalue" where
  "castArgument ToNumber ctx arg type =
     (case type of
        String \<Rightarrow> VString arg
      | Number \<Rightarrow> VNumber (ToNumber arg)
      | Boolean \<Rightarrow>
          (if toLowerCase arg = ''false'' then VBoolean False
           else (let n = ToNumber arg in VBoolean (if isNaN n then True else Boolean_of n)))
      | Castable cast \<Rightarrow> cast arg ctx
      | Other \<Rightarrow> Undefined)"

subsection \<open>consumeArgument\<close>

definition consumeArgument ::
  "(string \<Rightarrow> jsnum) \<Rightarrow> ArgsParser \<Rightarrow> Context \<Rightarrow> parse_state \<Rightarrow> string \<Rightarrow> parse_state" where
  "consumeArgument ToNumber p ctx st arg =
     (case pendingParamDefinitions st of
        definition # pending \<Rightarrow>
          st\<lparr>pendingParamDefinitions := pending,
             commandArgs := commandArgs st @ [castArgument ToNumber ctx arg (pd_type definition)]\<rparr>
      | [] \<Rightarrow>
          st\<lparr>commandExtraArgs := commandExtraArgs st @
               [case map_option vd_type (paramsDefinition p) of
                  Some paramsType \<Rightarrow> castArgument ToNumber ctx arg paramsType
                | None \<Rightarrow> VString arg]\<rparr>)"

subsection \<open>consumeOption\<close>

text \<open>\<open>commandOptions[name] = value\<close>; a \<open>TypeError\<close> when \<open>commandOptions\<close> is \<open>undefined\<close>.\<close>

definition assign_commandOption :: "string \<Rightarrow> jsvalue \<Rightarrow> parse_state \<Rightarrow> error + parse_state" where
  "assign_commandOption name v st =
     (case commandOptions st of
        None \<Rightarrow> Inl TypeError
      | Some table \<Rightarrow> Inr (st\<lparr>commandOptions := Some (assign_property name v table)\<rparr>))"

text \<open>
  \<open>if (definition.required) delete requiredOptionMap[name]\<close>; a \<open>TypeError\<close> when
  \<open>requiredOptionMap\<close> is \<open>undefined\<close>.
\<close>

definition delete_requiredOption ::
  "OptionDefinition \<Rightarrow> string \<Rightarrow> parse_state \<Rightarrow> error + parse_state" where
  "delete_requiredOption definition name st =
     (if od_required definition
      then (case requiredOptionMap st of
              None \<Rightarrow> Inl TypeError
            | Some table \<Rightarrow> Inr (st\<lparr>requiredOptionMap := Some (AList.delete name table)\<rparr>))
      else Inr st)"

definition consumeOption ::
  "(string \<Rightarrow> jsnum) \<Rightarrow> Context \<Rightarrow> parse_state \<Rightarrow> string \<Rightarrow> OptionDefinition
   \<Rightarrow> error + parse_state" where
  "consumeOption ToNumber ctx st name definition =
     (case args st of
        [] \<Rightarrow> Inl (UsageError (''Expecting value for option `'' @ name @ ''`''))
      | arg # rest \<Rightarrow>
          if char_at arg 0 = Some CHR ''-''
          then Inl (UsageError (''Expecting a value instead of an option or toggle \"'' @ arg
                                @ ''\" for option `'' @ name @ ''`''))
          else assign_commandOption name (castArgument ToNumber ctx arg (od_type definition))
                 (st\<lparr>args := rest\<rparr>))"

subsection \<open>consumeToggleOrOption\<close>

definition consumeToggleOrOption ::
  "(string \<Rightarrow> jsnum) \<Rightarrow> ArgsParser \<Rightarrow> Context \<Rightarrow> parse_state \<Rightarrow> string \<Rightarrow> error + parse_state" where
  "consumeToggleOrOption ToNumber p ctx st name =
     (case own_property (map_option own_definitions (optionDefinitionMap p)) name of
        Inl e \<Rightarrow> Inl e
      | Inr None \<Rightarrow> Inl (UsageError (''Unknown option `'' @ name @ ''`''))
      | Inr (Some definition) \<Rightarrow>
          (case delete_requiredOption definition name st of
             Inl e \<Rightarrow> Inl e
           | Inr st1 \<Rightarrow>
               if od_toggle definition
               then assign_commandOption name (VBoolean True) st1
               else consumeOption ToNumber ctx st1 name definition))"

subsection \<open>consumeFlags\<close>

text \<open>
  The \<open>for\<close> loop over the characters of the cluster, as a recursion on the characters
  still to process: \<open>i !== flags.length - 1\<close> says that characters remain after this one.
  Reading \<open>definition.required\<close> raises a \<open>TypeError\<close> when the read of
  \<open>optionDefinitionMap[name]\<close> gave no definition.
\<close>

fun consumeFlags ::
  "(string \<Rightarrow> jsnum) \<Rightarrow> ArgsParser \<Rightarrow> Context \<Rightarrow> parse_state \<Rightarrow> string \<Rightarrow> error + parse_state" where
  "consumeFlags ToNumber p ctx st [] = Inr st"
| "consumeFlags ToNumber p ctx st (flag # flags) =
     (case own_property (optionFlagMapping p) [flag] of
        Inl e \<Rightarrow> Inl e
      | Inr None \<Rightarrow> Inl (UsageError (''Unknown option flag \"'' @ [flag] @ ''\"''))
      | Inr (Some name) \<Rightarrow>
          (case read_definition (optionDefinitionMap p) name of
             None \<Rightarrow> Inl TypeError
           | Some definition \<Rightarrow>
               (case delete_requiredOption definition name st of
                  Inl e \<Rightarrow> Inl e
                | Inr st1 \<Rightarrow>
                    if od_toggle definition
                    then (case assign_commandOption name (VBoolean True) st1 of
                            Inl e \<Rightarrow> Inl e
                          | Inr st2 \<Rightarrow> consumeFlags ToNumber p ctx st2 flags)
                    else if flags \<noteq> []
                    then Inl (UsageError
                      ''Only the last flag in a sequence can refer to an option instead of a toggle'')
                    else (case consumeOption ToNumber ctx st1 name definition of
                            Inl e \<Rightarrow> Inl e
                          | Inr st2 \<Rightarrow> consumeFlags ToNumber p ctx st2 flags))))"

subsection \<open>The loop over the tokens\<close>

text \<open>The test \<open>/^(?:-[h?]|--help)$/\<close>.\<close>

definition is_help :: "string \<Rightarrow> bool" where
  "is_help arg = (arg = ''-h'' \<or> arg = ''-?'' \<or> arg = ''--help'')"

text \<open>The dispatch on the first two characters of a token that is no help request.\<close>

definition consumeToken ::
  "(string \<Rightarrow> jsnum) \<Rightarrow> ArgsParser \<Rightarrow> Context \<Rightarrow> parse_state \<Rightarrow> string \<Rightarrow> error + parse_state" where
  "consumeToken ToNumber p ctx st arg =
     (if char_at arg 0 = Some CHR ''-''
      then (if char_at arg 1 = Some CHR ''-''
            then consumeToggleOrOption ToNumber p ctx st (drop 2 arg)
            else consumeFlags ToNumber p ctx st (drop 1 arg))
      else Inr (consumeArgument ToNumber p ctx st arg))"

text \<open>
  How the \<open>while\<close> loop is left: by \<open>return {help: true}\<close>, or by its condition with the
  state reached (a \<open>throw\<close> is the left injection).
\<close>

datatype loop_exit = Return ParsedArgs | Fallthrough parse_state

definition help_result :: ParsedArgs where
  "help_result =
     \<lparr>res_args = None, res_extraArgs = None, res_options = None, res_context = None,
      res_help = Some True\<rparr>"

lemma consumeOption_args_le:
  "consumeOption ToNumber ctx st name definition = Inr st' \<Longrightarrow> length (args st') \<le> length (args st)"
  by (auto simp: consumeOption_def assign_commandOption_def split: list.splits if_splits option.splits)

lemma delete_requiredOption_args:
  "delete_requiredOption definition name st = Inr st' \<Longrightarrow> args st' = args st"
  by (auto simp: delete_requiredOption_def split: if_splits option.splits)

lemma assign_commandOption_args:
  "assign_commandOption name v st = Inr st' \<Longrightarrow> args st' = args st"
  by (auto simp: assign_commandOption_def split: option.splits)

lemma consumeToggleOrOption_args_le:
  "consumeToggleOrOption ToNumber p ctx st name = Inr st' \<Longrightarrow> length (args st') \<le> length (args st)"
  unfolding consumeToggleOrOption_def
  by (auto split: option.splits sum.splits if_splits
           dest!: delete_requiredOption_args assign_commandOption_args consumeOption_args_le)

lemma consumeFlags_args_le:
  "consumeFlags ToNumber p ctx st flags = Inr st' \<Longrightarrow> length (args st') \<le> length (args st)"
proof (induction flags arbitrary: st)
  case Nil
  then show ?case by simp
next
  case (Cons flag flags)
  then show ?case
    by (fastforce split: option.splits sum.splits if_splits
          dest!: delete_requiredOption_args assign_commandOption_args consumeOption_args_le)
qed

lemma consumeArgument_args: "args (consumeArgument ToNumber p ctx st arg) = args st"
  by (simp add: consumeArgument_def split: list.splits)

lemma consumeToken_args_le:
  "consumeToken ToNumber p ctx st arg = Inr st' \<Longrightarrow> length (args st') \<le> length (args st)"
  unfolding consumeToken_def
  by (auto split: if_splits simp: consumeArgument_args
           dest: consumeToggleOrOption_args_le consumeFlags_args_le)

text \<open>
  \<open>while (args.length)\<close>: \<open>args.shift()\<close>, the help test, the dispatch. Every round
  removes at least one token, which is the termination argument.
\<close>

function consume_loop ::
  "(string \<Rightarrow> jsnum) \<Rightarrow> ArgsParser \<Rightarrow> Context \<Rightarrow> parse_state \<Rightarrow> error + loop_exit" where
  "consume_loop ToNumber p ctx st =
     (case args st of
        [] \<Rightarrow> Inr (Fallthrough st)
      | arg # rest \<Rightarrow>
          if is_help arg then Inr (Return help_result)
          else (case consumeToken ToNumber p ctx (st\<lparr>args := rest\<rparr>) arg of
                  Inl e \<Rightarrow> Inl e
                | Inr st' \<Rightarrow> consume_loop ToNumber p ctx st'))"
  by pat_completeness auto
termination
proof (relation "measure (\<lambda>(ToNumber, p, ctx, st). length (args st))")
  show "wf (measure (\<lambda>(ToNumber, p, ctx, st). length (args st)))"
    by simp
next
  fix ToNumber :: "string \<Rightarrow> jsnum" and p ctx st arg rest st'
  assume a: "args st = arg # rest"
    and c: "consumeToken ToNumber p ctx (st\<lparr>args := rest\<rparr>) arg = Inr st'"
  from consumeToken_args_le [OF c] a
  show "((ToNumber, p, ctx, st'), (ToNumber, p, ctx, st))
          \<in> measure (\<lambda>(ToNumber, p, ctx, st). length (args st))"
    by simp
qed

declare consume_loop.simps [simp del]

subsection \<open>The validation stage and parse\<close>

text \<open>
  The code of \<open>parse\<close> after the loop: the two checks on what is required, the defaults
  of the parameters still pending, the two checks on the extra values, the result.
\<close>

definition validation_stage :: "ArgsParser \<Rightarrow> Context \<Rightarrow> parse_state \<Rightarrow> error + ParsedArgs" where
  "validation_stage p ctx st =
     (let expecting = requiredParamsNumber p;
          got = length (commandArgs st)
      in if got < expecting
         then Inl (UsageError (''Expecting argument(s) '' @
                join '', '' (map (\<lambda>definition. ''`'' @ pd_name definition @ ''`'')
                               (take (expecting - got) (pendingParamDefinitions st)))))
         else
           (case map_option Object_keys (requiredOptionMap st) of
              Some (n # ns) \<Rightarrow>
                Inl (UsageError (''Missing required option(s) `'' @ join ''`, `'' (n # ns) @ ''`''))
            | _ \<Rightarrow>
                (let commandArgs' = commandArgs st @ map pd_default (pendingParamDefinitions st);
                     result = \<lparr>res_args = Some commandArgs',
                               res_extraArgs = Some (commandExtraArgs st),
                               res_options = commandOptions st,
                               res_context = Some ctx,
                               res_help = None\<rparr>
                 in if commandExtraArgs st \<noteq> []
                    then (case paramsDefinition p of
                            None \<Rightarrow>
                              (let expecting = length (paramDefinitions_of p);
                                   got = length (commandExtraArgs st) + expecting
                               in Inl (UsageError (''Expecting '' @ show_nat expecting @
                                        '' parameter(s) at most but got '' @ show_nat got @
                                        '' instead'')))
                          | Some definition \<Rightarrow> Inr result)
                    else (case paramsDefinition p of
                            None \<Rightarrow> Inr result
                          | Some definition \<Rightarrow>
                              if vd_required definition
                              then Inl (UsageError
                                (''Expecting at least one element for variadic parameters `''
                                 @ vd_name definition @ ''`''))
                              else Inr result))))"

text \<open>The loop and the code after it, from a given state of the local variables.\<close>

definition parse_from ::
  "(string \<Rightarrow> jsnum) \<Rightarrow> ArgsParser \<Rightarrow> Context \<Rightarrow> parse_state \<Rightarrow> error + ParsedArgs" where
  "parse_from ToNumber p ctx st =
     (case consume_loop ToNumber p ctx st of
        Inl e \<Rightarrow> Inl e
      | Inr (Return result) \<Rightarrow> Inr result
      | Inr (Fallthrough st') \<Rightarrow> validation_stage p ctx st')"

definition parse ::
  "(string \<Rightarrow> jsnum) \<Rightarrow> ArgsParser \<Rightarrow> string list \<Rightarrow> string list \<Rightarrow> string
   \<Rightarrow> error + ParsedArgs" where
  "parse ToNumber p sequence tokens dir =
     parse_from ToNumber p \<lparr>cwd = dir, commands = sequence\<rparr> (initial_state p tokens)"

section \<open>Example schemas\<close>

text \<open>
  An instance of the coercion for running examples: a string of decimal digits has its
  value, every other string is taken as not-a-number. It agrees with \<open>Number\<close> on the
  digit strings and the words used below.
\<close>

definition ToNumber_digits :: "string \<Rightarrow> jsnum" where
  "ToNumber_digits s =
     (if s \<noteq> [] \<and> list_all is_digit s then Finite (of_nat (decimal_value s)) else NaN)"

text \<open>
  Two positional parameters of which the first is required, no variadic parameter, and
  three options: \<open>name\<close> (flag \<open>n\<close>) takes a string, \<open>verbose\<close> (flag \<open>v\<close>) is a toggle,
  \<open>output\<close> (flag \<open>o\<close>) takes a string and is required.
\<close>

definition demo_params :: "ParamDefinition list" where
  "demo_params =
     [\<lparr>pd_name = ''a'', pd_type = String, pd_default = Undefined\<rparr>,
      \<lparr>pd_name = ''b'', pd_type = String, pd_default = VString ''dflt''\<rparr>]"

definition demo_options :: "OptionDefinition list" where
  "demo_options =
     [\<lparr>od_name = ''name'', od_flag = Some ''n'', od_type = String, od_required = False,
       od_toggle = False, od_default = Undefined\<rparr>,
      \<lparr>od_name = ''verbose'', od_flag = Some ''v'', od_type = Boolean, od_required = False,
       od_toggle = True, od_default = Undefined\<rparr>,
      \<lparr>od_name = ''output'', od_flag = Some ''o'', od_type = String, od_required = True,
       od_toggle = False, od_default = Undefined\<rparr>]"

definition demo_parser :: ArgsParser where
  "demo_parser = new_ArgsParser (Some demo_params) None (Some demo_options) 1"

text \<open>One positional parameter, nothing else.\<close>

definition one_param_parser :: ArgsParser where
  "one_param_parser =
     new_ArgsParser (Some [\<lparr>pd_name = ''a'', pd_type = String, pd_default = Undefined\<rparr>])
       None None 1"

text \<open>
  Two required positional parameters and two required options, the toggle \<open>first\<close>
  (flag \<open>f\<close>) and \<open>second\<close> (flag \<open>s\<close>), which takes a number.
\<close>

definition strict_parser :: ArgsParser where
  "strict_parser =
     new_ArgsParser
       (Some [\<lparr>pd_name = ''a'', pd_type = String, pd_default = Undefined\<rparr>,
              \<lparr>pd_name = ''b'', pd_type = String, pd_default = Undefined\<rparr>])
       None
       (Some [\<lparr>od_name = ''first'', od_flag = Some ''f'', od_type = Boolean,
               od_required = True, od_toggle = True, od_default = Undefined\<rparr>,
              \<lparr>od_name = ''second'', od_flag = Some ''s'', od_type = Number,
               od_required = True, od_toggle = False, od_default = Undefined\<rparr>])
       2"

text \<open>
  A schema whose one option is a required toggle named \<open>__proto__\<close>, with the flag \<open>p\<close>.
\<close>

definition proto_parser :: ArgsParser where
  "proto_parser =
     new_ArgsParser None None
       (Some [\<lparr>od_name = ''__proto__'', od_flag = Some ''p'', od_type = Boolean,
               od_required = True, od_toggle = True, od_default = Undefined\<rparr>])
       0"

text \<open>
  A schema with the option \<open>name\<close> (flag \<open>n\<close>) and an option named \<open>hasOwnProperty\<close> whose
  flag is that same string; both take a string.
\<close>

definition hasOwnProperty_parser :: ArgsParser where
  "hasOwnProperty_parser =
     new_ArgsParser None None
       (Some [\<lparr>od_name = ''name'', od_flag = Some ''n'', od_type = String,
               od_required = False, od_toggle = False, od_default = Undefined\<rparr>,
              \<lparr>od_name = ''hasOwnProperty'', od_flag = Some ''hasOwnProperty'', od_type = String,
               od_required = False, od_toggle = False, od_default = Undefined\<rparr>])
       0"

definition demo_context :: Context where
  "demo_context = \<lparr>cwd = ''/'', commands = [''demo'']\<rparr>"

text \<open>
  The result of the first example parser for the tokens \<open>x\<close>, \<open>-o\<close>, \<open>f\<close> (or with a
  token \<open>-\<close> among them).
\<close>

definition demo_result :: ParsedArgs where
  "demo_result =
     \<lparr>res_args = Some [VString ''x'', VString ''dflt''],
      res_extraArgs = Some [],
      res_options =
        Some [(''name'', Undefined), (''verbose'', VBoolean False), (''output'', VString ''f'')],
      res_context = Some \<lparr>cwd = ''/'', commands = [''demo'']\<rparr>,
      res_help = None\<rparr>"

text \<open>The state of the first example parser after the one token \<open>x\<close>.\<close>

definition demo_state :: parse_state where
  "demo_state =
     \<lparr>args = [], commandArgs = [VString ''x''],
      commandOptions =
        Some [(''name'', Undefined), (''verbose'', VBoolean False), (''output'', Undefined)],
      commandExtraArgs = [],
      requiredOptionMap = Some [(''output'', True)],
      pendingParamDefinitions =
        [\<lparr>pd_name = ''b'', pd_type = String, pd_default = VString ''dflt''\<rparr>]\<rparr>"

section \<open>Properties\<close>

subsection \<open>Unfolding the loop\<close>

lemma consume_loop_Nil:
  "args st = [] \<Longrightarrow> consume_loop ToNumber p ctx st = Inr (Fallthrough st)"
  by (subst consume_loop.simps) simp

lemma consume_loop_Cons:
  "args st = arg # rest \<Longrightarrow>
   consume_loop ToNumber p ctx st =
     (if is_help arg then Inr (Return help_result)
      else (case consumeToken ToNumber p ctx (st\<lparr>args := rest\<rparr>) arg of
              Inl e \<Rightarrow> Inl e
            | Inr st' \<Rightarrow> consume_loop ToNumber p ctx st'))"
  by (subst consume_loop.simps) simp

subsection \<open>Tokens that follow do not change a step that succeeds\<close>

lemma initial_state_append:
  "initial_state p (pre @ later) = (initial_state p pre)\<lparr>args := args (initial_state p pre) @ later\<rparr>"
  by (simp add: initial_state_def Let_def)

lemma delete_requiredOption_later:
  "delete_requiredOption definition name (st\<lparr>args := xs\<rparr>) =
     (case delete_requiredOption definition name st of
        Inl e \<Rightarrow> Inl e | Inr s \<Rightarrow> Inr (s\<lparr>args := xs\<rparr>))"
  by (simp add: delete_requiredOption_def split: option.splits)

lemma assign_commandOption_later:
  "assign_commandOption name v (st\<lparr>args := xs\<rparr>) =
     (case assign_commandOption name v st of
        Inl e \<Rightarrow> Inl e | Inr s \<Rightarrow> Inr (s\<lparr>args := xs\<rparr>))"
  by (simp add: assign_commandOption_def split: option.splits)

lemma consumeOption_later:
  "consumeOption ToNumber ctx st name definition = Inr st' \<Longrightarrow>
   consumeOption ToNumber ctx (st\<lparr>args := args st @ later\<rparr>) name definition = Inr (st'\<lparr>args := args st' @ later\<rparr>)"
  by (auto simp: consumeOption_def assign_commandOption_def split: list.splits if_splits option.splits)

lemma consumeToggleOrOption_later:
  assumes "consumeToggleOrOption ToNumber p ctx st name = Inr st'"
  shows "consumeToggleOrOption ToNumber p ctx (st\<lparr>args := args st @ later\<rparr>) name = Inr (st'\<lparr>args := args st' @ later\<rparr>)"
proof -
  from assms obtain defn st1 where
    d: "own_property (map_option own_definitions (optionDefinitionMap p)) name = Inr (Some defn)"
    and r: "delete_requiredOption defn name st = Inr st1"
    and k: "(if od_toggle defn then assign_commandOption name (VBoolean True) st1
             else consumeOption ToNumber ctx st1 name defn) = Inr st'"
    unfolding consumeToggleOrOption_def by (auto split: option.splits sum.splits)
  from r have a1: "args st1 = args st" by (rule delete_requiredOption_args)
  show ?thesis
  proof (cases "od_toggle defn")
    case True
    with k have "assign_commandOption name (VBoolean True) st1 = Inr st'" by simp
    moreover from this have "args st' = args st1" by (rule assign_commandOption_args)
    ultimately show ?thesis
      unfolding consumeToggleOrOption_def using d r True a1
      by (simp add: delete_requiredOption_later assign_commandOption_later)
  next
    case False
    with k have "consumeOption ToNumber ctx st1 name defn = Inr st'" by simp
    from consumeOption_later [OF this, of later] show ?thesis
      unfolding consumeToggleOrOption_def using d r False a1
      by (simp add: delete_requiredOption_later)
  qed
qed

lemma consumeFlags_later:
  "consumeFlags ToNumber p ctx st flags = Inr st' \<Longrightarrow>
   consumeFlags ToNumber p ctx (st\<lparr>args := args st @ later\<rparr>) flags = Inr (st'\<lparr>args := args st' @ later\<rparr>)"
proof (induction flags arbitrary: st)
  case Nil
  then show ?case by simp
next
  case (Cons flag flags)
  from Cons.prems obtain name defn st1 where
    n: "own_property (optionFlagMapping p) [flag] = Inr (Some name)"
    and d: "read_definition (optionDefinitionMap p) name = Some defn"
    and r: "delete_requiredOption defn name st = Inr st1"
    by (auto split: option.splits sum.splits)
  from r have a1: "args st1 = args st" by (rule delete_requiredOption_args)
  show ?case
  proof (cases "od_toggle defn")
    case True
    with Cons.prems n d r obtain st2 where
      s: "assign_commandOption name (VBoolean True) st1 = Inr st2"
      and f: "consumeFlags ToNumber p ctx st2 flags = Inr st'"
      by (auto split: sum.splits)
    from s have a2: "args st2 = args st1" by (rule assign_commandOption_args)
    from Cons.IH [OF f] show ?thesis
      using n d r True s a1 a2
      by (simp add: delete_requiredOption_later assign_commandOption_later)
  next
    case False
    with Cons.prems n d r obtain st2 where
      e: "flags = []"
      and s: "consumeOption ToNumber ctx st1 name defn = Inr st2"
      and f: "consumeFlags ToNumber p ctx st2 flags = Inr st'"
      by (auto split: sum.splits if_splits)
    from consumeOption_later [OF s, of later] f e show ?thesis
      using n d r False a1
      by (simp add: delete_requiredOption_later)
  qed
qed

lemma consumeArgument_later:
  "consumeArgument ToNumber p ctx (st\<lparr>args := xs\<rparr>) arg = (consumeArgument ToNumber p ctx st arg)\<lparr>args := xs\<rparr>"
  by (simp add: consumeArgument_def split: list.splits)

lemma consumeToken_later:
  assumes "consumeToken ToNumber p ctx st arg = Inr st'"
  shows "consumeToken ToNumber p ctx (st\<lparr>args := args st @ later\<rparr>) arg = Inr (st'\<lparr>args := args st' @ later\<rparr>)"
proof (cases "char_at arg 0 = Some CHR ''-''")
  case dash: True
  show ?thesis
  proof (cases "char_at arg 1 = Some CHR ''-''")
    case True
    with dash assms have "consumeToggleOrOption ToNumber p ctx st (drop 2 arg) = Inr st'"
      by (simp add: consumeToken_def)
    from consumeToggleOrOption_later [OF this, of later] dash True show ?thesis
      by (simp add: consumeToken_def)
  next
    case False
    with dash assms have "consumeFlags ToNumber p ctx st (drop 1 arg) = Inr st'"
      by (simp add: consumeToken_def)
    from consumeFlags_later [OF this, of later] dash False show ?thesis
      by (simp add: consumeToken_def)
  qed
next
  case False
  with assms have "st' = consumeArgument ToNumber p ctx st arg"
    by (simp add: consumeToken_def)
  with False show ?thesis
    by (simp add: consumeToken_def consumeArgument_later consumeArgument_args)
qed

lemma consume_loop_later:
  "consume_loop ToNumber p ctx st = Inr (Fallthrough st') \<Longrightarrow>
   consume_loop ToNumber p ctx (st\<lparr>args := args st @ later\<rparr>) = consume_loop ToNumber p ctx (st'\<lparr>args := later\<rparr>)"
proof (induction ToNumber p ctx st rule: consume_loop.induct)
  case (1 ToNumber p ctx st)
  show ?case
  proof (cases "args st")
    case Nil
    with "1.prems" have "st' = st" by (simp add: consume_loop_Nil)
    with Nil show ?thesis by simp
  next
    case (Cons arg rest)
    from "1.prems" Cons have nh: "\<not> is_help arg"
      by (auto simp: consume_loop_Cons split: if_splits)
    from "1.prems" Cons nh obtain st1 where
      c: "consumeToken ToNumber p ctx (st\<lparr>args := rest\<rparr>) arg = Inr st1"
      and l: "consume_loop ToNumber p ctx st1 = Inr (Fallthrough st')"
      by (auto simp: consume_loop_Cons split: sum.splits)
    from consumeToken_later [OF c, of later]
    have c': "consumeToken ToNumber p ctx (st\<lparr>args := rest @ later\<rparr>) arg = Inr (st1\<lparr>args := args st1 @ later\<rparr>)"
      by simp
    have "consume_loop ToNumber p ctx (st\<lparr>args := args st @ later\<rparr>)
          = consume_loop ToNumber p ctx (st1\<lparr>args := args st1 @ later\<rparr>)"
      using Cons nh c' by (simp add: consume_loop_Cons [where arg = arg and rest = "rest @ later"])
    also have "\<dots> = consume_loop ToNumber p ctx (st'\<lparr>args := later\<rparr>)"
      using "1.IH" [OF Cons nh c l] .
    finally show ?thesis .
  qed
qed


subsection \<open>The positional accumulators\<close>

text \<open>
  What the loop keeps true of the positional part of the state: the pending definitions
  are the declared ones minus as many as values were collected, and extra values are
  collected only once every declared parameter has its value.
\<close>

definition params_invariant :: "ParamDefinition list \<Rightarrow> parse_state \<Rightarrow> bool" where
  "params_invariant definitions st =
     (length (commandArgs st) \<le> length definitions
      \<and> pendingParamDefinitions st = drop (length (commandArgs st)) definitions
      \<and> (commandExtraArgs st \<noteq> [] \<longrightarrow> length (commandArgs st) = length definitions))"

definition same_params :: "parse_state \<Rightarrow> parse_state \<Rightarrow> bool" where
  "same_params st st' =
     (commandArgs st' = commandArgs st \<and> commandExtraArgs st' = commandExtraArgs st
      \<and> pendingParamDefinitions st' = pendingParamDefinitions st)"

lemma same_params_refl: "same_params st st"
  by (simp add: same_params_def)

lemma same_params_trans: "same_params st st1 \<Longrightarrow> same_params st1 st2 \<Longrightarrow> same_params st st2"
  by (simp add: same_params_def)

lemma same_params_args: "same_params (st\<lparr>args := xs\<rparr>) st' = same_params st st'"
  by (simp add: same_params_def)

lemma delete_requiredOption_params:
  "delete_requiredOption d name st = Inr st' \<Longrightarrow> same_params st st'"
  by (auto simp: delete_requiredOption_def same_params_def split: if_splits option.splits)

lemma assign_commandOption_params:
  "assign_commandOption name v st = Inr st' \<Longrightarrow> same_params st st'"
  by (auto simp: assign_commandOption_def same_params_def split: option.splits)

lemma consumeOption_params:
  "consumeOption ToNumber ctx st name d = Inr st' \<Longrightarrow> same_params st st'"
  by (auto simp: consumeOption_def assign_commandOption_def same_params_def
      split: list.splits if_splits option.splits)

lemma consumeToggleOrOption_params:
  assumes "consumeToggleOrOption ToNumber p ctx st name = Inr st'"
  shows "same_params st st'"
proof -
  from assms obtain d st1 where
    r: "delete_requiredOption d name st = Inr st1"
    and k: "assign_commandOption name (VBoolean True) st1 = Inr st'
            \<or> consumeOption ToNumber ctx st1 name d = Inr st'"
    unfolding consumeToggleOrOption_def by (auto split: option.splits sum.splits if_splits)
  from k have "same_params st1 st'"
    by (auto dest: assign_commandOption_params consumeOption_params)
  with delete_requiredOption_params [OF r] show ?thesis
    by (rule same_params_trans)
qed

lemma consumeFlags_params:
  "consumeFlags ToNumber p ctx st flags = Inr st' \<Longrightarrow> same_params st st'"
proof (induction flags arbitrary: st)
  case Nil
  then show ?case by (simp add: same_params_refl)
next
  case (Cons flag flags)
  from Cons.prems obtain name d st1 st2 where
    r: "delete_requiredOption d name st = Inr st1"
    and k: "assign_commandOption name (VBoolean True) st1 = Inr st2
            \<or> consumeOption ToNumber ctx st1 name d = Inr st2"
    and f: "consumeFlags ToNumber p ctx st2 flags = Inr st'"
    by (auto split: option.splits sum.splits if_splits)
  from k have "same_params st1 st2"
    by (auto dest: assign_commandOption_params consumeOption_params)
  with delete_requiredOption_params [OF r] have "same_params st st2"
    by (rule same_params_trans)
  with Cons.IH [OF f] show ?case
    by (blast intro: same_params_trans)
qed

lemma params_invariant_same:
  "same_params st st' \<Longrightarrow> params_invariant definitions st \<Longrightarrow> params_invariant definitions st'"
  by (simp add: same_params_def params_invariant_def)

lemma drop_Cons_Suc: "drop n xs = y # ys \<Longrightarrow> drop (Suc n) xs = ys \<and> n < length xs"
proof -
  assume a: "drop n xs = y # ys"
  have "drop (Suc n) xs = tl (drop n xs)" by (simp add: drop_Suc tl_drop)
  moreover from a have "n < length xs" by (cases "n < length xs") auto
  ultimately show ?thesis using a by simp
qed

lemma consumeArgument_invariant:
  assumes "params_invariant definitions st"
  shows "params_invariant definitions (consumeArgument ToNumber p ctx st arg)"
proof (cases "pendingParamDefinitions st")
  case Nil
  with assms show ?thesis
    by (simp add: consumeArgument_def params_invariant_def)
next
  case (Cons d pending)
  with assms have "drop (length (commandArgs st)) definitions = d # pending"
    and "commandExtraArgs st = []"
    by (auto simp: params_invariant_def)
  with drop_Cons_Suc [OF this(1)] Cons show ?thesis
    by (simp add: consumeArgument_def params_invariant_def)
qed

lemma consumeToken_invariant:
  assumes "consumeToken ToNumber p ctx st arg = Inr st'" and "params_invariant definitions st"
  shows "params_invariant definitions st'"
proof (cases "char_at arg 0 = Some CHR ''-''")
  case True
  with assms(1) have "same_params st st'"
    by (auto simp: consumeToken_def split: if_splits
        dest: consumeToggleOrOption_params consumeFlags_params)
  with assms(2) show ?thesis by (blast intro: params_invariant_same)
next
  case False
  with assms(1) have "st' = consumeArgument ToNumber p ctx st arg"
    by (simp add: consumeToken_def)
  with assms(2) show ?thesis by (simp add: consumeArgument_invariant)
qed

lemma consume_loop_invariant:
  "consume_loop ToNumber p ctx st = Inr (Fallthrough st') \<Longrightarrow> params_invariant definitions st
   \<Longrightarrow> params_invariant definitions st'"
proof (induction ToNumber p ctx st rule: consume_loop.induct)
  case (1 ToNumber p ctx st)
  show ?case
  proof (cases "args st")
    case Nil
    with "1.prems" show ?thesis by (simp add: consume_loop_Nil)
  next
    case (Cons arg rest)
    from "1.prems"(1) Cons have nh: "\<not> is_help arg"
      by (auto simp: consume_loop_Cons split: if_splits)
    from "1.prems"(1) Cons nh obtain st1 where
      c: "consumeToken ToNumber p ctx (st\<lparr>args := rest\<rparr>) arg = Inr st1"
      and l: "consume_loop ToNumber p ctx st1 = Inr (Fallthrough st')"
      by (auto simp: consume_loop_Cons split: sum.splits)
    from "1.prems"(2) have "params_invariant definitions (st\<lparr>args := rest\<rparr>)"
      by (simp add: params_invariant_def)
    from consumeToken_invariant [OF c this] have "params_invariant definitions st1" .
    with "1.IH" [OF Cons nh c l] show ?thesis .
  qed
qed

lemma initial_state_invariant: "params_invariant (paramDefinitions_of p) (initial_state p tokens)"
  by (simp add: params_invariant_def initial_state_def Let_def)

lemma fallthrough_invariant:
  "consume_loop ToNumber p ctx (initial_state p tokens) = Inr (Fallthrough st)
   \<Longrightarrow> params_invariant (paramDefinitions_of p) st"
  by (erule consume_loop_invariant) (rule initial_state_invariant)

text \<open>
  Every value collected for a parameter is a token of the call, cast to the type of the
  definition at its position.
\<close>

definition casts_invariant ::
  "(string \<Rightarrow> jsnum) \<Rightarrow> Context \<Rightarrow> string set \<Rightarrow> ParamDefinition list \<Rightarrow> parse_state \<Rightarrow> bool" where
  "casts_invariant ToNumber ctx tokens definitions st =
     (set (args st) \<subseteq> tokens
      \<and> (\<forall>i < length (commandArgs st). \<exists>token \<in> tokens.
            commandArgs st ! i = castArgument ToNumber ctx token (pd_type (definitions ! i))))"

lemma casts_invariant_same:
  assumes "same_params st st'" and "set (args st') \<subseteq> set (args st)"
    and "casts_invariant ToNumber ctx tokens definitions st"
  shows "casts_invariant ToNumber ctx tokens definitions st'"
  using assms by (auto simp: casts_invariant_def same_params_def)

lemma consumeOption_args_subset:
  "consumeOption ToNumber ctx st name d = Inr st' \<Longrightarrow> set (args st') \<subseteq> set (args st)"
  by (auto simp: consumeOption_def assign_commandOption_def
      split: list.splits if_splits option.splits)

lemma consumeToggleOrOption_args_subset:
  assumes "consumeToggleOrOption ToNumber p ctx st name = Inr st'"
  shows "set (args st') \<subseteq> set (args st)"
proof -
  from assms obtain d st1 where
    r: "delete_requiredOption d name st = Inr st1"
    and k: "assign_commandOption name (VBoolean True) st1 = Inr st'
            \<or> consumeOption ToNumber ctx st1 name d = Inr st'"
    unfolding consumeToggleOrOption_def by (auto split: option.splits sum.splits if_splits)
  from k have "set (args st') \<subseteq> set (args st1)"
    by (auto dest: assign_commandOption_args consumeOption_args_subset)
  with delete_requiredOption_args [OF r] show ?thesis by simp
qed

lemma consumeFlags_args_subset:
  "consumeFlags ToNumber p ctx st flags = Inr st' \<Longrightarrow> set (args st') \<subseteq> set (args st)"
proof (induction flags arbitrary: st)
  case Nil
  then show ?case by simp
next
  case (Cons flag flags)
  from Cons.prems obtain name d st1 st2 where
    r: "delete_requiredOption d name st = Inr st1"
    and k: "assign_commandOption name (VBoolean True) st1 = Inr st2
            \<or> consumeOption ToNumber ctx st1 name d = Inr st2"
    and f: "consumeFlags ToNumber p ctx st2 flags = Inr st'"
    by (auto split: option.splits sum.splits if_splits)
  from k have "set (args st2) \<subseteq> set (args st1)"
    by (auto dest: assign_commandOption_args consumeOption_args_subset)
  with delete_requiredOption_args [OF r] Cons.IH [OF f] show ?case by auto
qed

lemma consumeArgument_casts:
  assumes "casts_invariant ToNumber ctx tokens definitions st"
    and "params_invariant definitions st" and "arg \<in> tokens"
  shows "casts_invariant ToNumber ctx tokens definitions (consumeArgument ToNumber p ctx st arg)"
proof (cases "pendingParamDefinitions st")
  case Nil
  with assms(1) show ?thesis
    by (simp add: consumeArgument_def casts_invariant_def)
next
  case (Cons d pending)
  with assms(2) have "drop (length (commandArgs st)) definitions = d # pending"
    by (simp add: params_invariant_def)
  then have "definitions ! length (commandArgs st) = d"
    by (metis Cons_nth_drop_Suc drop_Cons_Suc list.inject)
  with assms(1,3) Cons show ?thesis
    by (auto simp: consumeArgument_def casts_invariant_def nth_append less_Suc_eq)
qed

lemma consumeToken_casts:
  assumes "consumeToken ToNumber p ctx st arg = Inr st'"
    and "casts_invariant ToNumber ctx tokens definitions st"
    and "params_invariant definitions st" and "arg \<in> tokens"
  shows "casts_invariant ToNumber ctx tokens definitions st'"
proof (cases "char_at arg 0 = Some CHR ''-''")
  case True
  with assms(1) have "same_params st st'" and "set (args st') \<subseteq> set (args st)"
    by (auto simp: consumeToken_def split: if_splits
        dest: consumeToggleOrOption_params consumeFlags_params
          consumeToggleOrOption_args_subset consumeFlags_args_subset)
  with assms(2) show ?thesis by (blast intro: casts_invariant_same)
next
  case False
  with assms(1) have "st' = consumeArgument ToNumber p ctx st arg"
    by (simp add: consumeToken_def)
  with assms(2-4) show ?thesis by (simp add: consumeArgument_casts)
qed

lemma consume_loop_casts:
  "consume_loop ToNumber p ctx st = Inr (Fallthrough st')
   \<Longrightarrow> casts_invariant ToNumber ctx tokens definitions st
   \<Longrightarrow> params_invariant definitions st
   \<Longrightarrow> casts_invariant ToNumber ctx tokens definitions st'"
proof (induction ToNumber p ctx st rule: consume_loop.induct)
  case (1 ToNumber p ctx st)
  show ?case
  proof (cases "args st")
    case Nil
    with "1.prems" show ?thesis by (simp add: consume_loop_Nil)
  next
    case (Cons arg rest)
    from "1.prems"(1) Cons have nh: "\<not> is_help arg"
      by (auto simp: consume_loop_Cons split: if_splits)
    from "1.prems"(1) Cons nh obtain st1 where
      c: "consumeToken ToNumber p ctx (st\<lparr>args := rest\<rparr>) arg = Inr st1"
      and l: "consume_loop ToNumber p ctx st1 = Inr (Fallthrough st')"
      by (auto simp: consume_loop_Cons split: sum.splits)
    from "1.prems"(2) Cons have a: "arg \<in> tokens"
      and ci: "casts_invariant ToNumber ctx tokens definitions (st\<lparr>args := rest\<rparr>)"
      by (auto simp: casts_invariant_def)
    from "1.prems"(3) have pi: "params_invariant definitions (st\<lparr>args := rest\<rparr>)"
      by (simp add: params_invariant_def)
    from consumeToken_casts [OF c ci pi a] consumeToken_invariant [OF c pi]
    show ?thesis by (rule "1.IH" [OF Cons nh c l])
  qed
qed

lemma fallthrough_casts:
  assumes "consume_loop ToNumber p ctx (initial_state p tokens) = Inr (Fallthrough st)"
  shows "\<forall>i < length (commandArgs st). \<exists>token \<in> set tokens.
           commandArgs st ! i = castArgument ToNumber ctx token (pd_type (paramDefinitions_of p ! i))"
proof -
  have "casts_invariant ToNumber ctx (set tokens) (paramDefinitions_of p) (initial_state p tokens)"
    by (simp add: casts_invariant_def initial_state_def Let_def)
  from consume_loop_casts [OF assms this initial_state_invariant]
  show ?thesis by (simp add: casts_invariant_def)
qed

subsection \<open>The result of a call\<close>

lemma Object_keys_set: "set (Object_keys table) = fst ` set table"
  by (auto simp: Object_keys_def)

lemma Object_keys_length: "length (Object_keys table) = length table"
proof -
  have "length (filter is_array_index (map fst table))
        + length (filter (\<lambda>k. \<not> is_array_index k) (map fst table)) = length (map fst table)"
    by (rule sum_length_filter_compl)
  then show ?thesis
    by (simp only: Object_keys_def length_append length_sort length_map)
qed

lemma Object_keys_Nil: "Object_keys table = [] \<longleftrightarrow> table = []"
  using Object_keys_length [of table] by (metis length_0_conv)

lemma parse_fallthrough:
  "consume_loop ToNumber p \<lparr>cwd = dir, commands = sequence\<rparr> (initial_state p tokens) = Inr (Fallthrough st)
   \<Longrightarrow> parse ToNumber p sequence tokens dir = validation_stage p \<lparr>cwd = dir, commands = sequence\<rparr> st"
  by (simp add: parse_def parse_from_def)

lemma parse_result_cases:
  assumes "parse ToNumber p sequence tokens dir = Inr result"
  shows "result = help_result
         \<or> (\<exists>st. consume_loop ToNumber p \<lparr>cwd = dir, commands = sequence\<rparr> (initial_state p tokens) = Inr (Fallthrough st)
               \<and> validation_stage p \<lparr>cwd = dir, commands = sequence\<rparr> st = Inr result)"
proof (cases "consume_loop ToNumber p \<lparr>cwd = dir, commands = sequence\<rparr> (initial_state p tokens)")
  case (Inl e)
  with assms show ?thesis by (simp add: parse_def parse_from_def)
next
  case (Inr exit)
  show ?thesis
  proof (cases exit)
    case (Return r)
    have "\<And>st r. consume_loop ToNumber p \<lparr>cwd = dir, commands = sequence\<rparr> st = Inr (Return r) \<Longrightarrow> r = help_result"
    proof -
      fix st r
      show "consume_loop ToNumber p \<lparr>cwd = dir, commands = sequence\<rparr> st = Inr (Return r) \<Longrightarrow> r = help_result"
      proof (induction ToNumber p "\<lparr>cwd = dir, commands = sequence\<rparr>" st rule: consume_loop.induct)
        case (1 ToNumber p st)
        show ?case
        proof (cases "args st")
          case Nil
          with "1.prems" show ?thesis by (simp add: consume_loop_Nil)
        next
          case (Cons arg rest)
          show ?thesis
          proof (cases "is_help arg")
            case True
            with "1.prems" Cons show ?thesis by (simp add: consume_loop_Cons)
          next
            case False
            with "1.prems" Cons obtain st1 where
              c: "consumeToken ToNumber p \<lparr>cwd = dir, commands = sequence\<rparr> (st\<lparr>args := rest\<rparr>) arg = Inr st1"
              and l: "consume_loop ToNumber p \<lparr>cwd = dir, commands = sequence\<rparr> st1 = Inr (Return r)"
              by (auto simp: consume_loop_Cons split: sum.splits)
            from "1.hyps" [OF Cons False c l] show ?thesis .
          qed
        qed
      qed
    qed
    from this [of "initial_state p tokens" r] Inr Return assms show ?thesis
      by (simp add: parse_def parse_from_def)
  next
    case (Fallthrough st)
    with Inr assms show ?thesis by (simp add: parse_def parse_from_def)
  qed
qed

lemma validation_stage_result:
  assumes "validation_stage p ctx st = Inr result"
  shows "res_args result = Some (commandArgs st @ map pd_default (pendingParamDefinitions st))
         \<and> res_extraArgs result = Some (commandExtraArgs st)
         \<and> res_options result = commandOptions st
         \<and> res_context result = Some ctx
         \<and> res_help result = None
         \<and> (paramsDefinition p = None \<longrightarrow> commandExtraArgs st = [])"
  using assms unfolding validation_stage_def Let_def
  by (auto split: if_splits option.splits list.splits)

subsection \<open>The option tables\<close>

text \<open>
  A parser built by the constructor with option definitions gives every call both tables,
  and every step keeps them; every name in its flag table has a definition. So the
  \<open>TypeError\<close> branches of the model are not taken in a call of \<open>parse\<close>.
\<close>

definition tables_defined :: "parse_state \<Rightarrow> bool" where
  "tables_defined st = (commandOptions st \<noteq> None \<and> requiredOptionMap st \<noteq> None)"

lemma tables_defined_args: "tables_defined (st\<lparr>args := xs\<rparr>) = tables_defined st"
  by (simp add: tables_defined_def)

lemma delete_requiredOption_tables:
  "delete_requiredOption d name st = Inr st' \<Longrightarrow> tables_defined st \<Longrightarrow> tables_defined st'"
  by (auto simp: delete_requiredOption_def tables_defined_def split: if_splits option.splits)

lemma assign_commandOption_tables:
  "assign_commandOption name v st = Inr st' \<Longrightarrow> tables_defined st \<Longrightarrow> tables_defined st'"
  by (auto simp: assign_commandOption_def tables_defined_def split: option.splits)

lemma consumeOption_tables:
  "consumeOption ToNumber ctx st name d = Inr st' \<Longrightarrow> tables_defined st \<Longrightarrow> tables_defined st'"
  by (auto simp: consumeOption_def assign_commandOption_def tables_defined_def
      split: list.splits if_splits option.splits)

lemma consumeToggleOrOption_tables:
  assumes "consumeToggleOrOption ToNumber p ctx st name = Inr st'" and "tables_defined st"
  shows "tables_defined st'"
proof -
  from assms(1) obtain d st1 where
    r: "delete_requiredOption d name st = Inr st1"
    and k: "assign_commandOption name (VBoolean True) st1 = Inr st'
            \<or> consumeOption ToNumber ctx st1 name d = Inr st'"
    unfolding consumeToggleOrOption_def by (auto split: option.splits sum.splits if_splits)
  from delete_requiredOption_tables [OF r assms(2)] k show ?thesis
    by (auto dest: assign_commandOption_tables consumeOption_tables)
qed

lemma consumeFlags_tables:
  "consumeFlags ToNumber p ctx st flags = Inr st' \<Longrightarrow> tables_defined st \<Longrightarrow> tables_defined st'"
proof (induction flags arbitrary: st)
  case Nil
  then show ?case by simp
next
  case (Cons flag flags)
  from Cons.prems(1) obtain name d st1 st2 where
    r: "delete_requiredOption d name st = Inr st1"
    and k: "assign_commandOption name (VBoolean True) st1 = Inr st2
            \<or> consumeOption ToNumber ctx st1 name d = Inr st2"
    and f: "consumeFlags ToNumber p ctx st2 flags = Inr st'"
    by (auto split: option.splits sum.splits if_splits)
  from delete_requiredOption_tables [OF r Cons.prems(2)] k have "tables_defined st2"
    by (auto dest: assign_commandOption_tables consumeOption_tables)
  with Cons.IH [OF f] show ?case .
qed

lemma consumeArgument_tables:
  "tables_defined (consumeArgument ToNumber p ctx st arg) = tables_defined st"
  by (simp add: consumeArgument_def tables_defined_def split: list.splits)

lemma consumeToken_tables:
  "consumeToken ToNumber p ctx st arg = Inr st' \<Longrightarrow> tables_defined st \<Longrightarrow> tables_defined st'"
  unfolding consumeToken_def
  by (auto split: if_splits simp: consumeArgument_tables
      dest: consumeToggleOrOption_tables consumeFlags_tables)

lemma consume_loop_tables:
  "consume_loop ToNumber p ctx st = Inr (Fallthrough st') \<Longrightarrow> tables_defined st
   \<Longrightarrow> tables_defined st'"
proof (induction ToNumber p ctx st rule: consume_loop.induct)
  case (1 ToNumber p ctx st)
  show ?case
  proof (cases "args st")
    case Nil
    with "1.prems" show ?thesis by (simp add: consume_loop_Nil)
  next
    case (Cons arg rest)
    from "1.prems"(1) Cons have nh: "\<not> is_help arg"
      by (auto simp: consume_loop_Cons split: if_splits)
    from "1.prems"(1) Cons nh obtain st1 where
      c: "consumeToken ToNumber p ctx (st\<lparr>args := rest\<rparr>) arg = Inr st1"
      and l: "consume_loop ToNumber p ctx st1 = Inr (Fallthrough st')"
      by (auto simp: consume_loop_Cons split: sum.splits)
    from "1.prems"(2) have "tables_defined (st\<lparr>args := rest\<rparr>)"
      by (simp add: tables_defined_args)
    from consumeToken_tables [OF c this] have "tables_defined st1" .
    with "1.IH" [OF Cons nh c l] show ?thesis .
  qed
qed

lemma initial_state_tables:
  "optionDefinitions p \<noteq> None \<Longrightarrow> tables_defined (initial_state p tokens)"
  by (auto simp: initial_state_def tables_defined_def Let_def)












lemma reachable_tables:
  assumes "consume_loop ToNumber (new_ArgsParser pds vd ods n) ctx
             (initial_state (new_ArgsParser pds vd ods n) pre) = Inr (Fallthrough st)"
    and "optionDefinitions (new_ArgsParser pds vd ods n) \<noteq> None"
  shows "tables_defined st"
  using consume_loop_tables [OF assms(1) initial_state_tables [OF assms(2)]] .




subsection \<open>Running the examples\<close>

lemmas schema_defs = demo_parser_def demo_params_def demo_options_def one_param_parser_def
  strict_parser_def proto_parser_def hasOwnProperty_parser_def
  demo_context_def new_ArgsParser_def register_option_def initial_state_def init_option_def
  paramDefinitions_of_def assign_property_def assign_definition_def empty_definition_table_def

lemmas step_defs = consume_loop_Cons consume_loop_Nil is_help_def consumeToken_def char_at_def
  consumeToggleOrOption_def delete_requiredOption_def assign_commandOption_def
  consumeOption_def consumeArgument_def castArgument_def own_property_def read_definition_def

lemma show_nat_digit: "n < 10 \<Longrightarrow> show_nat n = [digit_char n]"
  by (simp add: show_nat.simps)

lemma demo_state_run:
  "consume_loop ToNumber_digits demo_parser \<lparr>cwd = ''/'', commands = [''demo'']\<rparr>
     (initial_state demo_parser [''x'']) = Inr (Fallthrough demo_state)"
  by (simp add: schema_defs step_defs demo_state_def)


section \<open>Help requests\<close>

text \<open>
  Claim C1, as stated: whenever a token equal to \<open>-h\<close>, \<open>-?\<close> or \<open>--help\<close> occurs anywhere
  in the sequence, \<open>parse\<close> returns the help result and raises nothing, also when the token
  follows a non-toggle option or an unknown option. The loop tests a token for help only
  when it takes that token from the front of the array itself: \<open>consumeOption\<close> takes
  the token after a non-toggle option without that test, and an error raised by an earlier
  token ends the call. Both runs below end in a usage error although \<open>--help\<close> is among
  the tokens.
\<close>

theorem help_in_value_position_counterexample:
  "is_help ''--help''
   \<and> parse ToNumber_digits demo_parser [''demo''] [''x'', ''--name'', ''--help''] ''/'' =
       Inl (UsageError
         ''Expecting a value instead of an option or toggle \"--help\" for option `name`'')
   \<and> parse ToNumber_digits demo_parser [''demo''] [''--bogus'', ''--help''] ''/'' =
       Inl (UsageError ''Unknown option `bogus`'')"
  by (simp add: parse_def parse_from_def schema_defs step_defs)

text \<open>
  Claim C1, amended: if the tokens before a help token, parsed on their own, are consumed
  by the loop to its end (no error, no earlier return; so the last of them is not an option
  still waiting for its value), then \<open>parse\<close> returns the help result, whatever the schema
  requires and whatever tokens follow.
\<close>

theorem help_after_consumed_prefix:
  assumes "consume_loop ToNumber p \<lparr>cwd = dir, commands = sequence\<rparr> (initial_state p pre) = Inr (Fallthrough st)"
    and "is_help h"
  shows "parse ToNumber p sequence (pre @ h # post) dir = Inr help_result"
proof -
  have "consume_loop ToNumber p \<lparr>cwd = dir, commands = sequence\<rparr> (initial_state p (pre @ h # post))
        = consume_loop ToNumber p \<lparr>cwd = dir, commands = sequence\<rparr> (st\<lparr>args := h # post\<rparr>)"
    using consume_loop_later [OF assms(1), of "h # post"] by (simp add: initial_state_append)
  also have "\<dots> = Inr (Return help_result)"
    using assms(2) by (simp add: consume_loop_Cons [where arg = h and rest = post])
  finally show ?thesis by (simp add: parse_def parse_from_def)
qed

theorem help_after_consumed_prefix_witness:
  "is_help ''--help''
   \<and> consume_loop ToNumber_digits demo_parser \<lparr>cwd = ''/'', commands = [''demo'']\<rparr>
        (initial_state demo_parser [''x'', ''-v'']) =
       Inr (Fallthrough
         \<lparr>args = [], commandArgs = [VString ''x''],
          commandOptions =
            Some [(''name'', Undefined), (''verbose'', VBoolean True), (''output'', Undefined)],
          commandExtraArgs = [],
          requiredOptionMap = Some [(''output'', True)],
          pendingParamDefinitions =
            [\<lparr>pd_name = ''b'', pd_type = String, pd_default = VString ''dflt''\<rparr>]\<rparr>)
   \<and> parse ToNumber_digits demo_parser [''demo''] ([''x'', ''-v''] @ ''--help'' # [''--bogus''])
         ''/'' = Inr help_result"
proof -
  have h: "is_help ''--help''"
    by (simp add: is_help_def)
  have run: "consume_loop ToNumber_digits demo_parser \<lparr>cwd = ''/'', commands = [''demo'']\<rparr>
        (initial_state demo_parser [''x'', ''-v'']) =
       Inr (Fallthrough
         \<lparr>args = [], commandArgs = [VString ''x''],
          commandOptions =
            Some [(''name'', Undefined), (''verbose'', VBoolean True), (''output'', Undefined)],
          commandExtraArgs = [],
          requiredOptionMap = Some [(''output'', True)],
          pendingParamDefinitions =
            [\<lparr>pd_name = ''b'', pd_type = String, pd_default = VString ''dflt''\<rparr>]\<rparr>)"
    by (simp add: schema_defs step_defs)
  from help_after_consumed_prefix [OF run h, of "[''--bogus'']"] h run
  show ?thesis by blast
qed

section \<open>The token \<open>-\<close>\<close>

text \<open>
  Claim C10, as stated: in every token sequence a token that is the single character \<open>-\<close>
  is consumed with no effect and raises no usage error. Like the help test, the dispatch
  as an empty flag cluster is made only on a token that the loop takes from the front of
  the array itself. The token after a non-toggle option is taken by \<open>consumeOption\<close>, whose
  test \<open>arg[0] === '-'\<close> rejects it: the first run below ends in a usage error about the
  token \<open>-\<close>, where the same tokens without it end in another one.
\<close>

theorem dash_in_value_position_counterexample:
  "parse ToNumber_digits demo_parser [''demo''] [''x'', ''--name'', ''-''] ''/'' =
     Inl (UsageError ''Expecting a value instead of an option or toggle \"-\" for option `name`'')
   \<and> parse ToNumber_digits demo_parser [''demo''] [''x'', ''--name''] ''/'' =
     Inl (UsageError ''Expecting value for option `name`'')"
  by (simp add: parse_def parse_from_def schema_defs step_defs)

text \<open>
  Claim C10, amended: if the tokens before a token \<open>-\<close>, parsed on their own, are consumed
  by the loop to its end (so the last of them is not an option still waiting for its
  value), the token is dispatched as an empty flag cluster: the step raises nothing and
  returns the state as it was (no option set, no positional or extra value added), and the
  loop goes on with the next token, so the whole call gives what it gives without that
  token.
\<close>

theorem dash_token:
  assumes "consume_loop ToNumber p \<lparr>cwd = dir, commands = sequence\<rparr> (initial_state p pre)
             = Inr (Fallthrough st)"
  shows "consumeToken ToNumber p \<lparr>cwd = dir, commands = sequence\<rparr> (st\<lparr>args := rest\<rparr>) ''-''
           = Inr (st\<lparr>args := rest\<rparr>)
         \<and> consume_loop ToNumber p \<lparr>cwd = dir, commands = sequence\<rparr>
               (initial_state p (pre @ ''-'' # rest))
             = consume_loop ToNumber p \<lparr>cwd = dir, commands = sequence\<rparr>
                 (initial_state p (pre @ rest))
         \<and> parse ToNumber p sequence (pre @ ''-'' # rest) dir
             = parse ToNumber p sequence (pre @ rest) dir"
proof -
  let ?ctx = "\<lparr>cwd = dir, commands = sequence\<rparr>"
  have t: "consumeToken ToNumber p ?ctx (st\<lparr>args := rest\<rparr>) ''-'' = Inr (st\<lparr>args := rest\<rparr>)"
    by (simp add: consumeToken_def char_at_def)
  have "consume_loop ToNumber p ?ctx (initial_state p (pre @ ''-'' # rest))
        = consume_loop ToNumber p ?ctx (st\<lparr>args := ''-'' # rest\<rparr>)"
    using consume_loop_later [OF assms, of "''-'' # rest"] by (simp add: initial_state_append)
  also have "\<dots> = consume_loop ToNumber p ?ctx (st\<lparr>args := rest\<rparr>)"
    by (simp add: consume_loop_Cons [where arg = "''-''" and rest = rest] is_help_def t)
  also have "\<dots> = consume_loop ToNumber p ?ctx (initial_state p (pre @ rest))"
    using consume_loop_later [OF assms, of rest] by (simp add: initial_state_append)
  finally have l: "consume_loop ToNumber p ?ctx (initial_state p (pre @ ''-'' # rest))
        = consume_loop ToNumber p ?ctx (initial_state p (pre @ rest))" .
  then have "parse ToNumber p sequence (pre @ ''-'' # rest) dir
             = parse ToNumber p sequence (pre @ rest) dir"
    by (simp add: parse_def parse_from_def)
  with t l show ?thesis by blast
qed

theorem dash_token_witness:
  "consume_loop ToNumber_digits demo_parser \<lparr>cwd = ''/'', commands = [''demo'']\<rparr>
        (initial_state demo_parser [''x'']) = Inr (Fallthrough demo_state)
   \<and> consumeToken ToNumber_digits demo_parser \<lparr>cwd = ''/'', commands = [''demo'']\<rparr>
        (demo_state\<lparr>args := [''-o'', ''f'']\<rparr>) ''-'' = Inr (demo_state\<lparr>args := [''-o'', ''f'']\<rparr>)
   \<and> parse ToNumber_digits demo_parser [''demo''] ([''x''] @ ''-'' # [''-o'', ''f'']) ''/'' =
       parse ToNumber_digits demo_parser [''demo''] ([''x''] @ [''-o'', ''f'']) ''/''
   \<and> parse ToNumber_digits demo_parser [''demo''] ([''x''] @ [''-o'', ''f'']) ''/'' =
       Inr \<lparr>res_args = Some [VString ''x'', VString ''dflt''],
            res_extraArgs = Some [],
            res_options =
              Some [(''name'', Undefined), (''verbose'', VBoolean False),
                    (''output'', VString ''f'')],
            res_context = Some \<lparr>cwd = ''/'', commands = [''demo'']\<rparr>,
            res_help = None\<rparr>"
proof -
  have run: "parse ToNumber_digits demo_parser [''demo''] ([''x''] @ [''-o'', ''f'']) ''/'' =
       Inr \<lparr>res_args = Some [VString ''x'', VString ''dflt''],
            res_extraArgs = Some [],
            res_options =
              Some [(''name'', Undefined), (''verbose'', VBoolean False),
                    (''output'', VString ''f'')],
            res_context = Some \<lparr>cwd = ''/'', commands = [''demo'']\<rparr>,
            res_help = None\<rparr>"
    by (simp add: parse_def parse_from_def schema_defs step_defs validation_stage_def
          Object_keys_def)
  from dash_token [OF demo_state_run, of "[''-o'', ''f'']"] demo_state_run run
  show ?thesis by blast
qed

section \<open>The shape of a result\<close>

text \<open>
  Claim C2: when \<open>parse\<close> returns a result that is no help result, the loop has consumed
  every token, and the positional values of the result are the values the loop collected,
  followed by the declared defaults of the parameter definitions that got no value, in
  declaration order. Each collected value is a token cast to the type of the definition at
  its position, and there are at most as many as definitions. So the positional values are
  as many as the schema declares parameter definitions, and from the number collected on,
  the value at each position is the declared default of the definition at that position.
  The extra values are empty when the schema has no variadic definition.
\<close>

theorem parsed_args_lengths:
  assumes "parse ToNumber p sequence tokens dir = Inr result"
    and "res_help result \<noteq> Some True"
  shows "\<exists>st values.
           consume_loop ToNumber p \<lparr>cwd = dir, commands = sequence\<rparr> (initial_state p tokens)
             = Inr (Fallthrough st)
           \<and> res_args result = Some values
           \<and> length values = length (paramDefinitions_of p)
           \<and> length (commandArgs st) \<le> length (paramDefinitions_of p)
           \<and> values = commandArgs st
                @ map pd_default (drop (length (commandArgs st)) (paramDefinitions_of p))
           \<and> (\<forall>i < length (commandArgs st). \<exists>token \<in> set tokens.
                 values ! i = castArgument ToNumber \<lparr>cwd = dir, commands = sequence\<rparr> token
                                (pd_type (paramDefinitions_of p ! i)))
           \<and> (\<forall>i. length (commandArgs st) \<le> i \<and> i < length (paramDefinitions_of p) \<longrightarrow>
                 values ! i = pd_default (paramDefinitions_of p ! i))
           \<and> (paramsDefinition p = None \<longrightarrow> res_extraArgs result = Some [])"
proof -
  let ?ctx = "\<lparr>cwd = dir, commands = sequence\<rparr>"
  let ?defs = "paramDefinitions_of p"
  from assms(2) have "result \<noteq> help_result"
    by (auto simp: help_result_def)
  with parse_result_cases [OF assms(1)] obtain st where
    l: "consume_loop ToNumber p ?ctx (initial_state p tokens) = Inr (Fallthrough st)"
    and v: "validation_stage p ?ctx st = Inr result"
    by blast
  define vs where "vs = commandArgs st @ map pd_default (drop (length (commandArgs st)) ?defs)"
  from fallthrough_invariant [OF l] have
    i: "length (commandArgs st) \<le> length ?defs"
       "pendingParamDefinitions st = drop (length (commandArgs st)) ?defs"
    by (simp_all add: params_invariant_def)
  from validation_stage_result [OF v] i have r: "res_args result = Some vs"
    and e: "paramsDefinition p = None \<longrightarrow> res_extraArgs result = Some []"
    by (simp_all add: vs_def)
  from i(1) have len: "length vs = length ?defs"
    by (simp add: vs_def)
  from fallthrough_casts [OF l] have
    c: "\<forall>i < length (commandArgs st). \<exists>token \<in> set tokens.
          vs ! i = castArgument ToNumber ?ctx token (pd_type (?defs ! i))"
    by (simp add: vs_def nth_append)
  have d: "\<forall>i. length (commandArgs st) \<le> i \<and> i < length ?defs \<longrightarrow>
             vs ! i = pd_default (?defs ! i)"
    by (auto simp: vs_def nth_append)
  show ?thesis
  proof (intro exI conjI)
    show "consume_loop ToNumber p ?ctx (initial_state p tokens) = Inr (Fallthrough st)"
      by (rule l)
    show "res_args result = Some vs" by (rule r)
    show "length vs = length ?defs" by (rule len)
    show "length (commandArgs st) \<le> length ?defs" by (rule i(1))
    show "vs = commandArgs st @ map pd_default (drop (length (commandArgs st)) ?defs)"
      by (rule vs_def)
    show "\<forall>i < length (commandArgs st). \<exists>token \<in> set tokens.
          vs ! i = castArgument ToNumber ?ctx token (pd_type (?defs ! i))"
      by (rule c)
    show "\<forall>i. length (commandArgs st) \<le> i \<and> i < length ?defs \<longrightarrow>
             vs ! i = pd_default (?defs ! i)"
      by (rule d)
    show "paramsDefinition p = None \<longrightarrow> res_extraArgs result = Some []" by (rule e)
  qed
qed

theorem parsed_args_lengths_witness:
  "parse ToNumber_digits demo_parser [''demo''] [''x'', ''-o'', ''f''] ''/'' = Inr demo_result
   \<and> res_help demo_result \<noteq> Some True
   \<and> res_args demo_result = Some [VString ''x'', VString ''dflt'']
   \<and> res_extraArgs demo_result = Some []
   \<and> (\<exists>st values.
         consume_loop ToNumber_digits demo_parser \<lparr>cwd = ''/'', commands = [''demo'']\<rparr>
           (initial_state demo_parser [''x'', ''-o'', ''f'']) = Inr (Fallthrough st)
         \<and> res_args demo_result = Some values
         \<and> length values = length (paramDefinitions_of demo_parser)
         \<and> length (commandArgs st) \<le> length (paramDefinitions_of demo_parser)
         \<and> values = commandArgs st
              @ map pd_default (drop (length (commandArgs st)) (paramDefinitions_of demo_parser))
         \<and> (\<forall>i < length (commandArgs st). \<exists>token \<in> set [''x'', ''-o'', ''f''].
               values ! i = castArgument ToNumber_digits \<lparr>cwd = ''/'', commands = [''demo'']\<rparr>
                              token (pd_type (paramDefinitions_of demo_parser ! i)))
         \<and> (\<forall>i. length (commandArgs st) \<le> i \<and> i < length (paramDefinitions_of demo_parser) \<longrightarrow>
               values ! i = pd_default (paramDefinitions_of demo_parser ! i))
         \<and> (paramsDefinition demo_parser = None \<longrightarrow> res_extraArgs demo_result = Some []))"
proof -
  have run: "parse ToNumber_digits demo_parser [''demo''] [''x'', ''-o'', ''f''] ''/''
             = Inr demo_result"
    by (simp add: parse_def parse_from_def schema_defs step_defs validation_stage_def
          Object_keys_def demo_result_def)
  have nh: "res_help demo_result \<noteq> Some True"
    by (simp add: demo_result_def)
  note inst = parsed_args_lengths [OF run nh]
  show ?thesis
  proof (intro conjI)
    show "parse ToNumber_digits demo_parser [''demo''] [''x'', ''-o'', ''f''] ''/''
          = Inr demo_result"
      by (rule run)
    show "res_help demo_result \<noteq> Some True" by (rule nh)
    show "res_args demo_result = Some [VString ''x'', VString ''dflt'']"
      by (simp add: demo_result_def)
    show "res_extraArgs demo_result = Some []"
      by (simp add: demo_result_def)
    show "\<exists>st values.
         consume_loop ToNumber_digits demo_parser \<lparr>cwd = ''/'', commands = [''demo'']\<rparr>
           (initial_state demo_parser [''x'', ''-o'', ''f'']) = Inr (Fallthrough st)
         \<and> res_args demo_result = Some values
         \<and> length values = length (paramDefinitions_of demo_parser)
         \<and> length (commandArgs st) \<le> length (paramDefinitions_of demo_parser)
         \<and> values = commandArgs st
              @ map pd_default (drop (length (commandArgs st)) (paramDefinitions_of demo_parser))
         \<and> (\<forall>i < length (commandArgs st). \<exists>token \<in> set [''x'', ''-o'', ''f''].
               values ! i = castArgument ToNumber_digits \<lparr>cwd = ''/'', commands = [''demo'']\<rparr>
                              token (pd_type (paramDefinitions_of demo_parser ! i)))
         \<and> (\<forall>i. length (commandArgs st) \<le> i \<and> i < length (paramDefinitions_of demo_parser) \<longrightarrow>
               values ! i = pd_default (paramDefinitions_of demo_parser ! i))
         \<and> (paramsDefinition demo_parser = None \<longrightarrow> res_extraArgs demo_result = Some [])"
      by (rule inst)
  qed
qed

section \<open>The validation stage\<close>

text \<open>
  Claim C3: once the loop has consumed every token without error, the checks run in a
  fixed order and the first that fails ends the call with its error. If fewer positional
  values were collected than the required count, the error is \<open>Expecting argument(s)\<close>
  followed by the names of the required parameters still missing (those from the number
  collected up to the required count), each between backticks, joined by a comma and a
  space; this holds whatever options are missing, so the second check does not run.
  Otherwise, if the table of required options not supplied is not empty, the error is
  \<open>Missing required option(s)\<close> followed by all the names left in it, between backticks,
  joined by a comma and a space. In both cases no result is returned.
\<close>

theorem validation_order:
  assumes "consume_loop ToNumber p \<lparr>cwd = dir, commands = sequence\<rparr> (initial_state p tokens)
             = Inr (Fallthrough st)"
  shows "(length (commandArgs st) < requiredParamsNumber p \<longrightarrow>
            parse ToNumber p sequence tokens dir =
              Inl (UsageError (''Expecting argument(s) '' @
                join '', '' (map (\<lambda>definition. ''`'' @ pd_name definition @ ''`'')
                  (take (requiredParamsNumber p - length (commandArgs st))
                     (drop (length (commandArgs st)) (paramDefinitions_of p)))))))
         \<and> (requiredParamsNumber p \<le> length (commandArgs st) \<longrightarrow>
              (\<forall>table. requiredOptionMap st = Some table \<longrightarrow> table \<noteq> [] \<longrightarrow>
                 parse ToNumber p sequence tokens dir =
                   Inl (UsageError (''Missing required option(s) `'' @
                     join ''`, `'' (Object_keys table) @ ''`''))
                 \<and> set (Object_keys table) = fst ` set table
                 \<and> length (Object_keys table) = length table))"
proof -
  from fallthrough_invariant [OF assms] have
    i: "pendingParamDefinitions st = drop (length (commandArgs st)) (paramDefinitions_of p)"
    by (simp add: params_invariant_def)
  have first: "length (commandArgs st) < requiredParamsNumber p \<Longrightarrow>
      validation_stage p \<lparr>cwd = dir, commands = sequence\<rparr> st =
        Inl (UsageError (''Expecting argument(s) '' @
                join '', '' (map (\<lambda>definition. ''`'' @ pd_name definition @ ''`'')
                  (take (requiredParamsNumber p - length (commandArgs st))
                     (drop (length (commandArgs st)) (paramDefinitions_of p))))))"
    using i by (simp add: validation_stage_def Let_def)
  have second: "\<And>table. requiredParamsNumber p \<le> length (commandArgs st) \<Longrightarrow>
      requiredOptionMap st = Some table \<Longrightarrow> table \<noteq> [] \<Longrightarrow>
      validation_stage p \<lparr>cwd = dir, commands = sequence\<rparr> st =
        Inl (UsageError (''Missing required option(s) `'' @
                     join ''`, `'' (Object_keys table) @ ''`''))"
  proof -
    fix table
    assume a: "requiredParamsNumber p \<le> length (commandArgs st)"
      "requiredOptionMap st = Some table" "table \<noteq> []"
    then obtain n ns where "Object_keys table = n # ns"
      by (cases "Object_keys table") (simp_all add: Object_keys_Nil)
    with a show "validation_stage p \<lparr>cwd = dir, commands = sequence\<rparr> st =
        Inl (UsageError (''Missing required option(s) `'' @
                     join ''`, `'' (Object_keys table) @ ''`''))"
      by (simp add: validation_stage_def Let_def)
  qed
  from first second show ?thesis
    by (simp add: parse_fallthrough [OF assms] Object_keys_set Object_keys_length)
qed

theorem validation_order_witness:
  "consume_loop ToNumber_digits strict_parser \<lparr>cwd = ''/'', commands = [''demo'']\<rparr>
        (initial_state strict_parser [''x'']) =
       Inr (Fallthrough
         \<lparr>args = [], commandArgs = [VString ''x''],
          commandOptions = Some [(''first'', VBoolean False), (''second'', Undefined)],
          commandExtraArgs = [],
          requiredOptionMap = Some [(''first'', True), (''second'', True)],
          pendingParamDefinitions =
            [\<lparr>pd_name = ''b'', pd_type = String, pd_default = Undefined\<rparr>]\<rparr>)
   \<and> parse ToNumber_digits strict_parser [''demo''] [''x''] ''/'' =
       Inl (UsageError ''Expecting argument(s) `b`'')
   \<and> consume_loop ToNumber_digits strict_parser \<lparr>cwd = ''/'', commands = [''demo'']\<rparr>
        (initial_state strict_parser [''x'', ''y'']) =
       Inr (Fallthrough
         \<lparr>args = [], commandArgs = [VString ''x'', VString ''y''],
          commandOptions = Some [(''first'', VBoolean False), (''second'', Undefined)],
          commandExtraArgs = [],
          requiredOptionMap = Some [(''first'', True), (''second'', True)],
          pendingParamDefinitions = []\<rparr>)
   \<and> parse ToNumber_digits strict_parser [''demo''] [''x'', ''y''] ''/'' =
       Inl (UsageError ''Missing required option(s) `first`, `second`'')"
proof -
  have run1: "consume_loop ToNumber_digits strict_parser \<lparr>cwd = ''/'', commands = [''demo'']\<rparr>
        (initial_state strict_parser [''x'']) =
       Inr (Fallthrough
         \<lparr>args = [], commandArgs = [VString ''x''],
          commandOptions = Some [(''first'', VBoolean False), (''second'', Undefined)],
          commandExtraArgs = [],
          requiredOptionMap = Some [(''first'', True), (''second'', True)],
          pendingParamDefinitions =
            [\<lparr>pd_name = ''b'', pd_type = String, pd_default = Undefined\<rparr>]\<rparr>)"
    by (simp add: schema_defs step_defs)
  have run2: "consume_loop ToNumber_digits strict_parser \<lparr>cwd = ''/'', commands = [''demo'']\<rparr>
        (initial_state strict_parser [''x'', ''y'']) =
       Inr (Fallthrough
         \<lparr>args = [], commandArgs = [VString ''x'', VString ''y''],
          commandOptions = Some [(''first'', VBoolean False), (''second'', Undefined)],
          commandExtraArgs = [],
          requiredOptionMap = Some [(''first'', True), (''second'', True)],
          pendingParamDefinitions = []\<rparr>)"
    by (simp add: schema_defs step_defs)
  have keys: "Object_keys [(''first'', True), (''second'', True)] = [''first'', ''second'']"
    by (simp add: Object_keys_def is_array_index_def is_digit_def)
  from validation_order [OF run1]
  have "parse ToNumber_digits strict_parser [''demo''] [''x''] ''/'' =
       Inl (UsageError ''Expecting argument(s) `b`'')"
    by (simp add: schema_defs)
  moreover from validation_order [OF run2]
  have "parse ToNumber_digits strict_parser [''demo''] [''x'', ''y''] ''/'' =
       Inl (UsageError ''Missing required option(s) `first`, `second`'')"
    by (simp add: schema_defs keys)
  ultimately show ?thesis using run1 run2 by blast
qed

text \<open>
  Claim C4, as stated: with no variadic definition, every token sequence whose consumption
  collects an extra positional value makes \<open>parse\<close> raise \<open>Expecting N parameter(s) at most
  but got M instead\<close>. The check of the extra values comes after the two checks on what
  is required: with a required option missing, the error is the one of that check.
\<close>

theorem excess_parameters_counterexample:
  "paramsDefinition demo_parser = None
   \<and> consume_loop ToNumber_digits demo_parser \<lparr>cwd = ''/'', commands = [''demo'']\<rparr>
        (initial_state demo_parser [''x'', ''y'', ''z'']) =
       Inr (Fallthrough
         \<lparr>args = [], commandArgs = [VString ''x'', VString ''y''],
          commandOptions =
            Some [(''name'', Undefined), (''verbose'', VBoolean False), (''output'', Undefined)],
          commandExtraArgs = [VString ''z''],
          requiredOptionMap = Some [(''output'', True)],
          pendingParamDefinitions = []\<rparr>)
   \<and> parse ToNumber_digits demo_parser [''demo''] [''x'', ''y'', ''z''] ''/'' =
       Inl (UsageError ''Missing required option(s) `output`'')
   \<and> parse ToNumber_digits demo_parser [''demo''] [''x'', ''y'', ''z''] ''/'' \<noteq>
       Inl (UsageError ''Expecting 2 parameter(s) at most but got 3 instead'')"
  by (simp add: parse_def parse_from_def schema_defs step_defs validation_stage_def
        Object_keys_def is_array_index_def is_digit_def)

text \<open>
  Claim C4, amended: for a schema with no variadic definition whose required count does
  not exceed the number of declared parameter definitions, and a token sequence that the
  loop consumes to its end with at least one extra value collected and no required option
  left missing, \<open>parse\<close> raises \<open>Expecting N parameter(s) at most but got M instead\<close>, with
  \<open>N\<close> the number of declared parameter definitions and \<open>M\<close> that number plus the number
  of extra values. The witness is the schema with one positional parameter and the tokens
  \<open>x\<close>, \<open>y\<close>.
\<close>

theorem excess_parameters:
  assumes "consume_loop ToNumber p \<lparr>cwd = dir, commands = sequence\<rparr> (initial_state p tokens)
             = Inr (Fallthrough st)"
    and "paramsDefinition p = None"
    and "commandExtraArgs st \<noteq> []"
    and "requiredParamsNumber p \<le> length (paramDefinitions_of p)"
    and "requiredOptionMap st = None \<or> requiredOptionMap st = Some []"
  shows "parse ToNumber p sequence tokens dir =
           Inl (UsageError (''Expecting '' @ show_nat (length (paramDefinitions_of p)) @
             '' parameter(s) at most but got '' @
             show_nat (length (paramDefinitions_of p) + length (commandExtraArgs st)) @
             '' instead''))"
proof -
  from fallthrough_invariant [OF assms(1)] assms(3) have
    "length (commandArgs st) = length (paramDefinitions_of p)"
    by (simp add: params_invariant_def)
  with assms(4) have got: "\<not> length (commandArgs st) < requiredParamsNumber p"
    by simp
  from assms(5) have "map_option Object_keys (requiredOptionMap st) = None
      \<or> map_option Object_keys (requiredOptionMap st) = Some []"
    by (auto simp: Object_keys_def)
  with got assms(2,3) have "validation_stage p \<lparr>cwd = dir, commands = sequence\<rparr> st =
           Inl (UsageError (''Expecting '' @ show_nat (length (paramDefinitions_of p)) @
             '' parameter(s) at most but got '' @
             show_nat (length (paramDefinitions_of p) + length (commandExtraArgs st)) @
             '' instead''))"
    by (auto simp: validation_stage_def Let_def add.commute)
  then show ?thesis
    by (simp add: parse_fallthrough [OF assms(1)])
qed

theorem excess_parameters_witness:
  "consume_loop ToNumber_digits one_param_parser \<lparr>cwd = ''/'', commands = [''demo'']\<rparr>
        (initial_state one_param_parser [''x'', ''y'']) =
       Inr (Fallthrough
         \<lparr>args = [], commandArgs = [VString ''x''], commandOptions = None,
          commandExtraArgs = [VString ''y''], requiredOptionMap = None,
          pendingParamDefinitions = []\<rparr>)
   \<and> paramsDefinition one_param_parser = None
   \<and> requiredParamsNumber one_param_parser \<le> length (paramDefinitions_of one_param_parser)
   \<and> parse ToNumber_digits one_param_parser [''demo''] [''x'', ''y''] ''/'' =
       Inl (UsageError ''Expecting 1 parameter(s) at most but got 2 instead'')"
proof -
  have run: "consume_loop ToNumber_digits one_param_parser \<lparr>cwd = ''/'', commands = [''demo'']\<rparr>
        (initial_state one_param_parser [''x'', ''y'']) =
       Inr (Fallthrough
         \<lparr>args = [], commandArgs = [VString ''x''], commandOptions = None,
          commandExtraArgs = [VString ''y''], requiredOptionMap = None,
          pendingParamDefinitions = []\<rparr>)"
    by (simp add: schema_defs step_defs)
  have h2: "paramsDefinition one_param_parser = None"
    by (simp add: schema_defs)
  have h4: "requiredParamsNumber one_param_parser \<le> length (paramDefinitions_of one_param_parser)"
    by (simp add: schema_defs)
  from excess_parameters [OF run h2 _ h4] run h2 h4 show ?thesis
    by (simp add: schema_defs show_nat_digit digit_char_def)
qed

section \<open>Type casting\<close>

text \<open>
  Claim C7: a token cast with the \<open>Boolean\<close> type tag gives false when it equals
  \<open>false\<close> compared case-insensitively. Otherwise the token is coerced to a number: a
  number that is not not-a-number gives true exactly when it is not zero (so an infinity
  gives true and zero gives false), and not-a-number gives true. In particular \<open>false\<close>
  gives false, \<open>0\<close> gives false since its coercion is zero, and \<open>yes\<close> gives true since
  its coercion is not-a-number.
\<close>

theorem cast_Boolean:
  "(toLowerCase arg = ''false'' \<longrightarrow> castArgument ToNumber ctx arg Boolean = VBoolean False)
   \<and> (toLowerCase arg \<noteq> ''false'' \<longrightarrow>
        (\<forall>q. ToNumber arg = Finite q \<longrightarrow>
               castArgument ToNumber ctx arg Boolean = VBoolean (q \<noteq> 0))
        \<and> (ToNumber arg = PosInfinity \<or> ToNumber arg = NegInfinity \<longrightarrow>
               castArgument ToNumber ctx arg Boolean = VBoolean True)
        \<and> (ToNumber arg = NaN \<longrightarrow> castArgument ToNumber ctx arg Boolean = VBoolean True))
   \<and> castArgument ToNumber ctx ''false'' Boolean = VBoolean False
   \<and> (ToNumber ''0'' = Finite 0 \<longrightarrow> castArgument ToNumber ctx ''0'' Boolean = VBoolean False)
   \<and> (ToNumber ''yes'' = NaN \<longrightarrow> castArgument ToNumber ctx ''yes'' Boolean = VBoolean True)"
proof -
  have low: "toLowerCase ''false'' = ''false''" "toLowerCase ''0'' \<noteq> ''false''"
    "toLowerCase ''yes'' \<noteq> ''false''"
    by (simp_all add: toLowerCase_def toLowerCase_char_def)
  have general: "toLowerCase arg \<noteq> ''false'' \<Longrightarrow>
      castArgument ToNumber ctx arg Boolean =
        VBoolean (if ToNumber arg = NaN then True else Boolean_of (ToNumber arg))" for arg
    by (simp add: castArgument_def isNaN_def Let_def)
  show ?thesis
    using low general [of arg] general [of "''0''"] general [of "''yes''"]
    by (auto simp: castArgument_def)
qed

theorem cast_Boolean_witness:
  "toLowerCase ''FaLsE'' = ''false''
   \<and> castArgument ToNumber_digits demo_context ''FaLsE'' Boolean = VBoolean False
   \<and> toLowerCase ''7'' \<noteq> ''false'' \<and> ToNumber_digits ''7'' = Finite 7
   \<and> castArgument ToNumber_digits demo_context ''7'' Boolean = VBoolean True
   \<and> ToNumber_digits ''0'' = Finite 0
   \<and> castArgument ToNumber_digits demo_context ''0'' Boolean = VBoolean False
   \<and> ToNumber_digits ''yes'' = NaN
   \<and> castArgument ToNumber_digits demo_context ''yes'' Boolean = VBoolean True"
proof -
  have low: "toLowerCase ''FaLsE'' = ''false''" "toLowerCase ''7'' \<noteq> ''false''"
    by (simp_all add: toLowerCase_def toLowerCase_char_def char_of_eq_iff)
  have num: "ToNumber_digits ''7'' = Finite 7" "ToNumber_digits ''0'' = Finite 0"
    "ToNumber_digits ''yes'' = NaN"
    by (simp_all add: ToNumber_digits_def is_digit_def decimal_value_def)
  from cast_Boolean [of "''FaLsE''" ToNumber_digits demo_context]
       cast_Boolean [of "''7''" ToNumber_digits demo_context] low num
  show ?thesis by simp
qed

text \<open>
  Claim C8: the cast raises nothing (\<open>castArgument\<close> has no \<open>throw\<close>; it yields a value
  for every token and type tag): the \<open>String\<close> tag returns the token unchanged, the
  \<open>Number\<close> tag returns the coercion of the token, not-a-number included, and a tag that
  is none of \<open>String\<close>, \<open>Number\<close>, \<open>Boolean\<close> and is not castable yields \<open>undefined\<close>.
\<close>

theorem cast_never_raises:
  "castArgument ToNumber ctx arg String = VString arg
   \<and> castArgument ToNumber ctx arg Number = VNumber (ToNumber arg)
   \<and> (ToNumber arg = NaN \<longrightarrow> castArgument ToNumber ctx arg Number = VNumber NaN)
   \<and> (type \<noteq> String \<longrightarrow> type \<noteq> Number \<longrightarrow> type \<noteq> Boolean \<longrightarrow> \<not> isStringCastable type \<longrightarrow>
        castArgument ToNumber ctx arg type = Undefined)"
  by (cases type) (simp_all add: castArgument_def)

theorem cast_never_raises_witness:
  "ToNumber_digits ''abc'' = NaN
   \<and> castArgument ToNumber_digits demo_context ''abc'' Number = VNumber NaN
   \<and> Other \<noteq> String \<and> Other \<noteq> Number \<and> Other \<noteq> Boolean \<and> \<not> isStringCastable Other
   \<and> castArgument ToNumber_digits demo_context ''abc'' Other = Undefined"
proof -
  have num: "ToNumber_digits ''abc'' = NaN"
    by (simp add: ToNumber_digits_def is_digit_def)
  from cast_never_raises [of ToNumber_digits demo_context "''abc''" Other] num
  show ?thesis by simp
qed

section \<open>Options and flags\<close>







section \<open>The parser over an explicit store\<close>

text \<open>
  For the claims about what a call mutates, the arrays and tables are objects in a store
  and a variable holds a reference. The store is the list of the objects allocated so far;
  a reference is an index into it, and an allocation appends. The functions below are the
  same code as above, every read and write going through the reference the variable holds.
\<close>

type_synonym addr = nat

datatype object =
    StringArray "string list"
  | ValueArray "jsvalue list"
  | ParamArray "ParamDefinition list"
  | OptionArray "OptionDefinition list"
  | ValueTable "(string \<times> jsvalue) list"
  | RequiredTable "(string \<times> bool) list"
  | OptionTable definition_table
  | FlagTable "(string \<times> string) list"

type_synonym store = "object list"

definition alloc :: "object \<Rightarrow> store \<Rightarrow> addr \<times> store" where
  "alloc obj h = (length h, h @ [obj])"

definition object_at :: "store \<Rightarrow> addr \<Rightarrow> object option" where
  "object_at h a = (if a < length h then Some (h ! a) else None)"

definition strings_at :: "store \<Rightarrow> addr \<Rightarrow> string list option" where
  "strings_at h a = (case object_at h a of Some (StringArray xs) \<Rightarrow> Some xs | _ \<Rightarrow> None)"

definition values_at :: "store \<Rightarrow> addr \<Rightarrow> jsvalue list option" where
  "values_at h a = (case object_at h a of Some (ValueArray xs) \<Rightarrow> Some xs | _ \<Rightarrow> None)"

definition params_at :: "store \<Rightarrow> addr \<Rightarrow> ParamDefinition list option" where
  "params_at h a = (case object_at h a of Some (ParamArray xs) \<Rightarrow> Some xs | _ \<Rightarrow> None)"

definition options_at :: "store \<Rightarrow> addr \<Rightarrow> OptionDefinition list option" where
  "options_at h a = (case object_at h a of Some (OptionArray xs) \<Rightarrow> Some xs | _ \<Rightarrow> None)"

definition value_table_at :: "store \<Rightarrow> addr \<Rightarrow> (string \<times> jsvalue) list option" where
  "value_table_at h a = (case object_at h a of Some (ValueTable t) \<Rightarrow> Some t | _ \<Rightarrow> None)"

definition required_table_at :: "store \<Rightarrow> addr \<Rightarrow> (string \<times> bool) list option" where
  "required_table_at h a = (case object_at h a of Some (RequiredTable t) \<Rightarrow> Some t | _ \<Rightarrow> None)"

definition option_table_at :: "store \<Rightarrow> addr \<Rightarrow> definition_table option" where
  "option_table_at h a = (case object_at h a of Some (OptionTable t) \<Rightarrow> Some t | _ \<Rightarrow> None)"

definition flag_table_at :: "store \<Rightarrow> addr \<Rightarrow> (string \<times> string) list option" where
  "flag_table_at h a = (case object_at h a of Some (FlagTable t) \<Rightarrow> Some t | _ \<Rightarrow> None)"

text \<open>
  The parser object: its fields hold references (or \<open>undefined\<close>). \<open>parse\<close> assigns to
  none of them.
\<close>

record ArgsParser_object =
  this_paramDefinitions :: "addr option"
  this_paramsDefinition :: "ParamsDefinition option"
  this_optionDefinitions :: "addr option"
  this_requiredParamsNumber :: nat
  this_optionDefinitionMap :: "addr option"
  this_optionFlagMapping :: "addr option"

text \<open>The local variables of \<open>parse\<close> that hold references.\<close>

record frame =
  v_args :: addr
  v_commandArgs :: addr
  v_commandOptions :: "addr option"
  v_commandExtraArgs :: addr
  v_requiredOptionMap :: "addr option"
  v_paramDefinitions :: addr
  v_pendingParamDefinitions :: addr

text \<open>
  A statement either completes or throws; in both cases the store is as the statement
  left it.
\<close>

type_synonym outcome = "error option \<times> store"

definition consumeArgument_s ::
  "(string \<Rightarrow> jsnum) \<Rightarrow> ArgsParser_object \<Rightarrow> Context \<Rightarrow> frame \<Rightarrow> store \<Rightarrow> string \<Rightarrow> outcome" where
  "consumeArgument_s ToNumber this ctx fr h arg =
     (case params_at h (v_pendingParamDefinitions fr) of
        None \<Rightarrow> (Some TypeError, h)
      | Some (definition # pending) \<Rightarrow>
          (let h1 = h[v_pendingParamDefinitions fr := ParamArray pending]
           in case values_at h1 (v_commandArgs fr) of
                None \<Rightarrow> (Some TypeError, h1)
              | Some vs \<Rightarrow>
                  (None, h1[v_commandArgs fr :=
                     ValueArray (vs @ [castArgument ToNumber ctx arg (pd_type definition)])]))
      | Some [] \<Rightarrow>
          (case values_at h (v_commandExtraArgs fr) of
             None \<Rightarrow> (Some TypeError, h)
           | Some vs \<Rightarrow>
               (None, h[v_commandExtraArgs fr :=
                  ValueArray (vs @
                    [case map_option vd_type (this_paramsDefinition this) of
                       Some paramsType \<Rightarrow> castArgument ToNumber ctx arg paramsType
                     | None \<Rightarrow> VString arg])])))"

definition assign_commandOption_s ::
  "addr option \<Rightarrow> store \<Rightarrow> string \<Rightarrow> jsvalue \<Rightarrow> outcome" where
  "assign_commandOption_s commandOptions_ref h name v =
     (case commandOptions_ref of
        None \<Rightarrow> (Some TypeError, h)
      | Some a \<Rightarrow>
          (case value_table_at h a of
             None \<Rightarrow> (Some TypeError, h)
           | Some table \<Rightarrow> (None, h[a := ValueTable (assign_property name v table)])))"

definition delete_requiredOption_s ::
  "addr option \<Rightarrow> store \<Rightarrow> OptionDefinition \<Rightarrow> string \<Rightarrow> outcome" where
  "delete_requiredOption_s requiredOptionMap_ref h definition name =
     (if od_required definition
      then (case requiredOptionMap_ref of
              None \<Rightarrow> (Some TypeError, h)
            | Some a \<Rightarrow>
                (case required_table_at h a of
                   None \<Rightarrow> (Some TypeError, h)
                 | Some table \<Rightarrow> (None, h[a := RequiredTable (AList.delete name table)])))
      else (None, h))"

definition consumeOption_s ::
  "(string \<Rightarrow> jsnum) \<Rightarrow> Context \<Rightarrow> frame \<Rightarrow> store \<Rightarrow> string \<Rightarrow> OptionDefinition \<Rightarrow> outcome" where
  "consumeOption_s ToNumber ctx fr h name definition =
     (case strings_at h (v_args fr) of
        None \<Rightarrow> (Some TypeError, h)
      | Some [] \<Rightarrow> (Some (UsageError (''Expecting value for option `'' @ name @ ''`'')), h)
      | Some (arg # rest) \<Rightarrow>
          (let h1 = h[v_args fr := StringArray rest]
           in if char_at arg 0 = Some CHR ''-''
              then (Some (UsageError (''Expecting a value instead of an option or toggle \"''
                      @ arg @ ''\" for option `'' @ name @ ''`'')), h1)
              else assign_commandOption_s (v_commandOptions fr) h1 name
                     (castArgument ToNumber ctx arg (od_type definition))))"

text \<open>
  The test and the read of an own property, and the read of a definition, on a table
  reached through a field that may be \<open>undefined\<close>.
\<close>

definition own_definitions_at :: "store \<Rightarrow> addr \<Rightarrow> (string \<times> OptionDefinition) list option" where
  "own_definitions_at h a = map_option own_definitions (option_table_at h a)"

definition own_property_s ::
  "(store \<Rightarrow> addr \<Rightarrow> (string \<times> 'v) list option) \<Rightarrow> store \<Rightarrow> addr option \<Rightarrow> string
   \<Rightarrow> error + 'v option" where
  "own_property_s table_at h r k =
     (case r of
        None \<Rightarrow> Inr None
      | Some a \<Rightarrow> own_property (table_at h a) k)"

definition read_definition_s :: "store \<Rightarrow> addr option \<Rightarrow> string \<Rightarrow> OptionDefinition option" where
  "read_definition_s h r name =
     (case r of
        None \<Rightarrow> None
      | Some a \<Rightarrow> read_definition (option_table_at h a) name)"

definition consumeToggleOrOption_s ::
  "(string \<Rightarrow> jsnum) \<Rightarrow> ArgsParser_object \<Rightarrow> Context \<Rightarrow> frame \<Rightarrow> store \<Rightarrow> string \<Rightarrow> outcome" where
  "consumeToggleOrOption_s ToNumber this ctx fr h name =
     (case own_property_s own_definitions_at h (this_optionDefinitionMap this) name of
        Inl e \<Rightarrow> (Some e, h)
      | Inr None \<Rightarrow> (Some (UsageError (''Unknown option `'' @ name @ ''`'')), h)
      | Inr (Some definition) \<Rightarrow>
          (case delete_requiredOption_s (v_requiredOptionMap fr) h definition name of
             (Some e, h1) \<Rightarrow> (Some e, h1)
           | (None, h1) \<Rightarrow>
               if od_toggle definition
               then assign_commandOption_s (v_commandOptions fr) h1 name (VBoolean True)
               else consumeOption_s ToNumber ctx fr h1 name definition))"

fun consumeFlags_s ::
  "(string \<Rightarrow> jsnum) \<Rightarrow> ArgsParser_object \<Rightarrow> Context \<Rightarrow> frame \<Rightarrow> store \<Rightarrow> string \<Rightarrow> outcome" where
  "consumeFlags_s ToNumber this ctx fr h [] = (None, h)"
| "consumeFlags_s ToNumber this ctx fr h (flag # flags) =
     (case own_property_s flag_table_at h (this_optionFlagMapping this) [flag] of
        Inl e \<Rightarrow> (Some e, h)
      | Inr None \<Rightarrow> (Some (UsageError (''Unknown option flag \"'' @ [flag] @ ''\"'')), h)
      | Inr (Some name) \<Rightarrow>
          (case read_definition_s h (this_optionDefinitionMap this) name of
             None \<Rightarrow> (Some TypeError, h)
           | Some definition \<Rightarrow>
               (case delete_requiredOption_s (v_requiredOptionMap fr) h definition name of
                  (Some e, h1) \<Rightarrow> (Some e, h1)
                | (None, h1) \<Rightarrow>
                    if od_toggle definition
                    then (case assign_commandOption_s (v_commandOptions fr) h1 name (VBoolean True) of
                            (Some e, h2) \<Rightarrow> (Some e, h2)
                          | (None, h2) \<Rightarrow> consumeFlags_s ToNumber this ctx fr h2 flags)
                    else if flags \<noteq> []
                    then (Some (UsageError
                      ''Only the last flag in a sequence can refer to an option instead of a toggle''),
                      h1)
                    else (case consumeOption_s ToNumber ctx fr h1 name definition of
                            (Some e, h2) \<Rightarrow> (Some e, h2)
                          | (None, h2) \<Rightarrow> consumeFlags_s ToNumber this ctx fr h2 flags))))"

definition consumeToken_s ::
  "(string \<Rightarrow> jsnum) \<Rightarrow> ArgsParser_object \<Rightarrow> Context \<Rightarrow> frame \<Rightarrow> store \<Rightarrow> string \<Rightarrow> outcome" where
  "consumeToken_s ToNumber this ctx fr h arg =
     (if char_at arg 0 = Some CHR ''-''
      then (if char_at arg 1 = Some CHR ''-''
            then consumeToggleOrOption_s ToNumber this ctx fr h (drop 2 arg)
            else consumeFlags_s ToNumber this ctx fr h (drop 1 arg))
      else consumeArgument_s ToNumber this ctx fr h arg)"

text \<open>
  The result object: its fields hold the references of the arrays and of the table.
\<close>

record ParsedArgs_object =
  ref_args :: "addr option"
  ref_extraArgs :: "addr option"
  ref_options :: "addr option"
  val_context :: "Context option"
  val_help :: "bool option"

datatype loop_exit_s = Return_s ParsedArgs_object | Fallthrough_s

definition help_result_s :: ParsedArgs_object where
  "help_result_s =
     \<lparr>ref_args = None, ref_extraArgs = None, ref_options = None, val_context = None,
      val_help = Some True\<rparr>"

partial_function (option) consume_loop_s ::
  "(string \<Rightarrow> jsnum) \<Rightarrow> ArgsParser_object \<Rightarrow> Context \<Rightarrow> frame \<Rightarrow> store
   \<Rightarrow> ((error + loop_exit_s) \<times> store) option" where
  "consume_loop_s ToNumber this ctx fr h =
     (case strings_at h (v_args fr) of
        None \<Rightarrow> Some (Inl TypeError, h)
      | Some [] \<Rightarrow> Some (Inr Fallthrough_s, h)
      | Some (arg # rest) \<Rightarrow>
          (let h1 = h[v_args fr := StringArray rest]
           in if is_help arg then Some (Inr (Return_s help_result_s), h1)
              else (case consumeToken_s ToNumber this ctx fr h1 arg of
                      (Some e, h2) \<Rightarrow> Some (Inl e, h2)
                    | (None, h2) \<Rightarrow> consume_loop_s ToNumber this ctx fr h2)))"


text \<open>
  The statements of \<open>parse\<close> before the loop. \<open>args.concat()\<close>, the array and object
  literals and \<open>paramDefinitions.concat()\<close> allocate; the loop over the option definitions
  writes to the two tables just allocated.
\<close>

definition assign_requiredOption_s :: "addr option \<Rightarrow> store \<Rightarrow> string \<Rightarrow> outcome" where
  "assign_requiredOption_s requiredOptionMap_ref h name =
     (case requiredOptionMap_ref of
        None \<Rightarrow> (Some TypeError, h)
      | Some a \<Rightarrow>
          (case required_table_at h a of
             None \<Rightarrow> (Some TypeError, h)
           | Some table \<Rightarrow> (None, h[a := RequiredTable (assign_property name True table)])))"

fun init_options_s ::
  "addr option \<Rightarrow> addr option \<Rightarrow> store \<Rightarrow> OptionDefinition list \<Rightarrow> outcome" where
  "init_options_s commandOptions_ref requiredOptionMap_ref h [] = (None, h)"
| "init_options_s commandOptions_ref requiredOptionMap_ref h (definition # definitions) =
     (case (if od_required definition
            then assign_requiredOption_s requiredOptionMap_ref h (od_name definition)
            else (None, h)) of
        (Some e, h1) \<Rightarrow> (Some e, h1)
      | (None, h1) \<Rightarrow>
          (case assign_commandOption_s commandOptions_ref h1 (od_name definition)
                  (if od_toggle definition then VBoolean False else od_default definition) of
             (Some e, h2) \<Rightarrow> (Some e, h2)
           | (None, h2) \<Rightarrow> init_options_s commandOptions_ref requiredOptionMap_ref h2 definitions))"

definition option_tables_s ::
  "ArgsParser_object \<Rightarrow> store \<Rightarrow> error option \<times> addr option \<times> addr option \<times> store" where
  "option_tables_s this h =
     (case this_optionDefinitions this of
        None \<Rightarrow> (None, None, None, h)
      | Some a_definitions \<Rightarrow>
          (let (a_commandOptions, h1) = alloc (ValueTable []) h;
               (a_requiredOptionMap, h2) = alloc (RequiredTable []) h1
           in case options_at h2 a_definitions of
                None \<Rightarrow> (Some TypeError, Some a_commandOptions, Some a_requiredOptionMap, h2)
              | Some definitions \<Rightarrow>
                  (case init_options_s (Some a_commandOptions) (Some a_requiredOptionMap) h2
                          definitions of
                     (e, h3) \<Rightarrow> (e, Some a_commandOptions, Some a_requiredOptionMap, h3))))"

definition prologue_s ::
  "ArgsParser_object \<Rightarrow> addr \<Rightarrow> store \<Rightarrow> (error + frame) \<times> store" where
  "prologue_s this args_ref h =
     (case strings_at h args_ref of
        None \<Rightarrow> (Inl TypeError, h)
      | Some tokens \<Rightarrow>
          (let (a_args, h1) = alloc (StringArray tokens) h;
               (a_commandArgs, h2) = alloc (ValueArray []) h1;
               (a_commandExtraArgs, h3) = alloc (ValueArray []) h2
           in case option_tables_s this h3 of
                (Some e, commandOptions_ref, requiredOptionMap_ref, h4) \<Rightarrow> (Inl e, h4)
              | (None, commandOptions_ref, requiredOptionMap_ref, h4) \<Rightarrow>
                  (let (a_paramDefinitions, h5) =
                         (case this_paramDefinitions this of
                            None \<Rightarrow> alloc (ParamArray []) h4
                          | Some a \<Rightarrow> (a, h4))
                   in case params_at h5 a_paramDefinitions of
                        None \<Rightarrow> (Inl TypeError, h5)
                      | Some definitions \<Rightarrow>
                          (let (a_pending, h6) = alloc (ParamArray definitions) h5
                           in (Inr \<lparr>v_args = a_args,
                                    v_commandArgs = a_commandArgs,
                                    v_commandOptions = commandOptions_ref,
                                    v_commandExtraArgs = a_commandExtraArgs,
                                    v_requiredOptionMap = requiredOptionMap_ref,
                                    v_paramDefinitions = a_paramDefinitions,
                                    v_pendingParamDefinitions = a_pending\<rparr>, h6)))))"

text \<open>
  The code after the loop. The defaults of the pending definitions are pushed on
  \<open>commandArgs\<close> before the checks on the extra values, so the store keeps them also when
  one of these checks throws.
\<close>

definition validation_stage_s ::
  "ArgsParser_object \<Rightarrow> Context \<Rightarrow> frame \<Rightarrow> store \<Rightarrow> (error + ParsedArgs_object) \<times> store" where
  "validation_stage_s this ctx fr h =
     (case (values_at h (v_commandArgs fr), params_at h (v_pendingParamDefinitions fr),
            values_at h (v_commandExtraArgs fr), params_at h (v_paramDefinitions fr),
            (case v_requiredOptionMap fr of
               None \<Rightarrow> Some None
             | Some a \<Rightarrow> map_option Some (required_table_at h a))) of
        (Some collected, Some pending, Some extras, Some declared, Some required) \<Rightarrow>
          (let expecting = this_requiredParamsNumber this;
               got = length collected
           in if got < expecting
              then (Inl (UsageError (''Expecting argument(s) '' @
                     join '', '' (map (\<lambda>definition. ''`'' @ pd_name definition @ ''`'')
                                    (take (expecting - got) pending)))), h)
              else
                (case map_option Object_keys required of
                   Some (n # ns) \<Rightarrow>
                     (Inl (UsageError (''Missing required option(s) `'' @
                        join ''`, `'' (n # ns) @ ''`'')), h)
                 | _ \<Rightarrow>
                     (let h1 = h[v_commandArgs fr :=
                                  ValueArray (collected @ map pd_default pending)];
                          result = \<lparr>ref_args = Some (v_commandArgs fr),
                                    ref_extraArgs = Some (v_commandExtraArgs fr),
                                    ref_options = v_commandOptions fr,
                                    val_context = Some ctx,
                                    val_help = None\<rparr>
                      in if extras \<noteq> []
                         then (case this_paramsDefinition this of
                                 None \<Rightarrow>
                                   (let expecting = length declared;
                                        got = length extras + expecting
                                    in (Inl (UsageError (''Expecting '' @ show_nat expecting @
                                          '' parameter(s) at most but got '' @ show_nat got @
                                          '' instead'')), h1))
                               | Some definition \<Rightarrow> (Inr result, h1))
                         else (case this_paramsDefinition this of
                                 None \<Rightarrow> (Inr result, h1)
                               | Some definition \<Rightarrow>
                                   if vd_required definition
                                   then (Inl (UsageError
                                     (''Expecting at least one element for variadic parameters `''
                                      @ vd_name definition @ ''`'')), h1)
                                   else (Inr result, h1)))))
      | _ \<Rightarrow> (Inl TypeError, h))"

text \<open>
  \<open>parse\<close> over the store. The value is \<open>None\<close> if the loop does not end.
\<close>

definition parse_s ::
  "(string \<Rightarrow> jsnum) \<Rightarrow> ArgsParser_object \<Rightarrow> string list \<Rightarrow> addr \<Rightarrow> string \<Rightarrow> store
   \<Rightarrow> ((error + ParsedArgs_object) \<times> store) option" where
  "parse_s ToNumber this sequence args_ref dir h =
     (case prologue_s this args_ref h of
        (Inl e, h1) \<Rightarrow> Some (Inl e, h1)
      | (Inr fr, h1) \<Rightarrow>
          (case consume_loop_s ToNumber this \<lparr>cwd = dir, commands = sequence\<rparr> fr h1 of
             None \<Rightarrow> None
           | Some (Inl e, h2) \<Rightarrow> Some (Inl e, h2)
           | Some (Inr (Return_s result), h2) \<Rightarrow> Some (Inr result, h2)
           | Some (Inr Fallthrough_s, h2) \<Rightarrow>
               Some (validation_stage_s this \<lparr>cwd = dir, commands = sequence\<rparr> fr h2)))"

subsection \<open>Reading the store\<close>

text \<open>What a reference that may be \<open>undefined\<close> refers to, if it is well-formed.\<close>

definition deref :: "(store \<Rightarrow> addr \<Rightarrow> 'a option) \<Rightarrow> store \<Rightarrow> addr option \<Rightarrow> 'a option option" where
  "deref read h r = (case r of None \<Rightarrow> Some None | Some a \<Rightarrow> map_option Some (read h a))"

text \<open>The parser instance that a parser object stands for in a store.\<close>

definition instance_of :: "store \<Rightarrow> ArgsParser_object \<Rightarrow> ArgsParser option" where
  "instance_of h this =
     (case (deref params_at h (this_paramDefinitions this),
            deref options_at h (this_optionDefinitions this),
            deref option_table_at h (this_optionDefinitionMap this),
            deref flag_table_at h (this_optionFlagMapping this)) of
        (Some pds, Some ods, Some odm, Some ofm) \<Rightarrow>
          Some \<lparr>paramDefinitions = pds,
                paramsDefinition = this_paramsDefinition this,
                optionDefinitions = ods,
                requiredParamsNumber = this_requiredParamsNumber this,
                optionDefinitionMap = odm,
                optionFlagMapping = ofm\<rparr>
      | _ \<Rightarrow> None)"

text \<open>The state of the local variables that a frame stands for in a store.\<close>

definition view :: "store \<Rightarrow> frame \<Rightarrow> parse_state option" where
  "view h fr =
     (case (strings_at h (v_args fr), values_at h (v_commandArgs fr),
            deref value_table_at h (v_commandOptions fr),
            values_at h (v_commandExtraArgs fr),
            deref required_table_at h (v_requiredOptionMap fr),
            params_at h (v_pendingParamDefinitions fr)) of
        (Some a, Some ca, Some co, Some ce, Some rm, Some pp) \<Rightarrow>
          Some \<lparr>args = a, commandArgs = ca, commandOptions = co, commandExtraArgs = ce,
                requiredOptionMap = rm, pendingParamDefinitions = pp\<rparr>
      | _ \<Rightarrow> None)"

text \<open>The result that a result object stands for in a store.\<close>

definition read_result :: "store \<Rightarrow> ParsedArgs_object \<Rightarrow> ParsedArgs" where
  "read_result h r =
     \<lparr>res_args = (case ref_args r of None \<Rightarrow> None | Some a \<Rightarrow> values_at h a),
      res_extraArgs = (case ref_extraArgs r of None \<Rightarrow> None | Some a \<Rightarrow> values_at h a),
      res_options = (case ref_options r of None \<Rightarrow> None | Some a \<Rightarrow> value_table_at h a),
      res_context = val_context r,
      res_help = val_help r\<rparr>"

text \<open>
  The references of a frame are those of objects allocated by the call: they lie at or
  above the size \<open>n0\<close> of the store at the call, and below the present size, and they are
  distinct. The array \<open>paramDefinitions\<close> is the one of the parser object or a fresh one.
\<close>

definition frame_refs :: "frame \<Rightarrow> addr list" where
  "frame_refs fr =
     [v_args fr, v_commandArgs fr, v_commandExtraArgs fr, v_pendingParamDefinitions fr]
     @ (case v_commandOptions fr of None \<Rightarrow> [] | Some a \<Rightarrow> [a])
     @ (case v_requiredOptionMap fr of None \<Rightarrow> [] | Some a \<Rightarrow> [a])"

definition frame_ok :: "nat \<Rightarrow> nat \<Rightarrow> frame \<Rightarrow> bool" where
  "frame_ok n0 n fr =
     (distinct (frame_refs fr) \<and> (\<forall>a \<in> set (frame_refs fr). n0 \<le> a \<and> a < n)
      \<and> v_paramDefinitions fr \<notin> set (frame_refs fr) \<and> v_paramDefinitions fr < n)"

subsection \<open>Reads after writes and allocations\<close>

lemma object_at_update:
  "object_at (h[a := obj]) b = (if b = a \<and> a < length h then Some obj else object_at h b)"
  by (simp add: object_at_def)

lemma object_at_append:
  "object_at (h @ [obj]) a = (if a = length h then Some obj else object_at h a)"
  by (auto simp: object_at_def nth_append)

lemma object_at_take:
  "object_at (take n h) a = (if a < n then object_at h a else None)"
  by (simp add: object_at_def)

lemmas reads_defs = strings_at_def values_at_def params_at_def options_at_def
  value_table_at_def required_table_at_def option_table_at_def flag_table_at_def

lemma reads_update:
  "strings_at (h[a := obj]) b =
     (if b = a \<and> a < length h then (case obj of StringArray xs \<Rightarrow> Some xs | _ \<Rightarrow> None)
      else strings_at h b)"
  "values_at (h[a := obj]) b =
     (if b = a \<and> a < length h then (case obj of ValueArray xs \<Rightarrow> Some xs | _ \<Rightarrow> None)
      else values_at h b)"
  "params_at (h[a := obj]) b =
     (if b = a \<and> a < length h then (case obj of ParamArray xs \<Rightarrow> Some xs | _ \<Rightarrow> None)
      else params_at h b)"
  "value_table_at (h[a := obj]) b =
     (if b = a \<and> a < length h then (case obj of ValueTable xs \<Rightarrow> Some xs | _ \<Rightarrow> None)
      else value_table_at h b)"
  "required_table_at (h[a := obj]) b =
     (if b = a \<and> a < length h then (case obj of RequiredTable xs \<Rightarrow> Some xs | _ \<Rightarrow> None)
      else required_table_at h b)"
  by (simp_all add: reads_defs object_at_update)

lemma reads_append:
  "strings_at (h @ [obj]) b =
     (if b = length h then (case obj of StringArray xs \<Rightarrow> Some xs | _ \<Rightarrow> None)
      else strings_at h b)"
  "values_at (h @ [obj]) b =
     (if b = length h then (case obj of ValueArray xs \<Rightarrow> Some xs | _ \<Rightarrow> None)
      else values_at h b)"
  "params_at (h @ [obj]) b =
     (if b = length h then (case obj of ParamArray xs \<Rightarrow> Some xs | _ \<Rightarrow> None)
      else params_at h b)"
  "options_at (h @ [obj]) b =
     (if b = length h then (case obj of OptionArray xs \<Rightarrow> Some xs | _ \<Rightarrow> None)
      else options_at h b)"
  "value_table_at (h @ [obj]) b =
     (if b = length h then (case obj of ValueTable xs \<Rightarrow> Some xs | _ \<Rightarrow> None)
      else value_table_at h b)"
  "required_table_at (h @ [obj]) b =
     (if b = length h then (case obj of RequiredTable xs \<Rightarrow> Some xs | _ \<Rightarrow> None)
      else required_table_at h b)"
  by (simp_all add: reads_defs object_at_append)

lemma reads_in_range:
  "strings_at h a = Some xs \<Longrightarrow> a < length h"
  "values_at h a = Some vs \<Longrightarrow> a < length h"
  "params_at h a = Some ps \<Longrightarrow> a < length h"
  "options_at h a = Some os \<Longrightarrow> a < length h"
  "value_table_at h a = Some vt \<Longrightarrow> a < length h"
  "required_table_at h a = Some rt \<Longrightarrow> a < length h"
  "option_table_at h a = Some ot \<Longrightarrow> a < length h"
  "flag_table_at h a = Some ft \<Longrightarrow> a < length h"
  by (auto simp: reads_defs object_at_def split: if_splits)

lemma reads_take:
  "a < n \<Longrightarrow> strings_at (take n h) a = strings_at h a"
  "a < n \<Longrightarrow> params_at (take n h) a = params_at h a"
  "a < n \<Longrightarrow> options_at (take n h) a = options_at h a"
  "a < n \<Longrightarrow> option_table_at (take n h) a = option_table_at h a"
  "a < n \<Longrightarrow> flag_table_at (take n h) a = flag_table_at h a"
  by (simp_all add: reads_defs object_at_take)

text \<open>A read of the part of the store that is not written to.\<close>

lemma reads_base:
  assumes "take n0 h' = take n0 h" and "a < n0"
  shows "strings_at h' a = strings_at h a" and "params_at h' a = params_at h a"
    and "options_at h' a = options_at h a" and "option_table_at h' a = option_table_at h a"
    and "flag_table_at h' a = flag_table_at h a"
  using assms reads_take [of a n0 h] reads_take [of a n0 h'] by simp_all

subsection \<open>The view of a frame after a write\<close>

lemma view_iff:
  "view h fr = Some st \<longleftrightarrow>
     strings_at h (v_args fr) = Some (args st)
     \<and> values_at h (v_commandArgs fr) = Some (commandArgs st)
     \<and> deref value_table_at h (v_commandOptions fr) = Some (commandOptions st)
     \<and> values_at h (v_commandExtraArgs fr) = Some (commandExtraArgs st)
     \<and> deref required_table_at h (v_requiredOptionMap fr) = Some (requiredOptionMap st)
     \<and> params_at h (v_pendingParamDefinitions fr) = Some (pendingParamDefinitions st)"
proof (cases st)
  case (fields a ca co ce rm pp)
  show ?thesis
  proof (cases "strings_at h (v_args fr)")
    case None
    then show ?thesis by (simp add: view_def)
  next
    case s1: (Some x1)
    show ?thesis
    proof (cases "values_at h (v_commandArgs fr)")
      case None
      with s1 show ?thesis by (simp add: view_def)
    next
      case s2: (Some x2)
      show ?thesis
      proof (cases "deref value_table_at h (v_commandOptions fr)")
        case None
        with s1 s2 show ?thesis by (simp add: view_def)
      next
        case s3: (Some x3)
        show ?thesis
        proof (cases "values_at h (v_commandExtraArgs fr)")
          case None
          with s1 s2 s3 show ?thesis by (simp add: view_def)
        next
          case s4: (Some x4)
          show ?thesis
          proof (cases "deref required_table_at h (v_requiredOptionMap fr)")
            case None
            with s1 s2 s3 s4 show ?thesis by (simp add: view_def)
          next
            case s5: (Some x5)
            show ?thesis
            proof (cases "params_at h (v_pendingParamDefinitions fr)")
              case None
              with s1 s2 s3 s4 s5 show ?thesis by (simp add: view_def)
            next
              case s6: (Some x6)
              with s1 s2 s3 s4 s5 fields show ?thesis by (auto simp: view_def)
            qed
          qed
        qed
      qed
    qed
  qed
qed

lemma view_fields:
  assumes "view h fr = Some st"
  shows "strings_at h (v_args fr) = Some (args st)"
    and "values_at h (v_commandArgs fr) = Some (commandArgs st)"
    and "values_at h (v_commandExtraArgs fr) = Some (commandExtraArgs st)"
    and "params_at h (v_pendingParamDefinitions fr) = Some (pendingParamDefinitions st)"
    and "deref value_table_at h (v_commandOptions fr) = Some (commandOptions st)"
    and "deref required_table_at h (v_requiredOptionMap fr) = Some (requiredOptionMap st)"
  using assms by (simp_all add: view_iff)

lemma frame_ok_distinct:
  assumes "frame_ok n0 n fr"
  shows "v_args fr \<noteq> v_commandArgs fr" "v_args fr \<noteq> v_commandExtraArgs fr"
    "v_args fr \<noteq> v_pendingParamDefinitions fr" "v_commandArgs fr \<noteq> v_commandExtraArgs fr"
    "v_commandArgs fr \<noteq> v_pendingParamDefinitions fr"
    "v_commandExtraArgs fr \<noteq> v_pendingParamDefinitions fr"
    "v_paramDefinitions fr \<noteq> v_args fr" "v_paramDefinitions fr \<noteq> v_commandArgs fr"
    "v_paramDefinitions fr \<noteq> v_commandExtraArgs fr"
    "v_paramDefinitions fr \<noteq> v_pendingParamDefinitions fr"
    "v_commandOptions fr = Some a \<Longrightarrow>
       a \<noteq> v_args fr \<and> a \<noteq> v_commandArgs fr \<and> a \<noteq> v_commandExtraArgs fr
       \<and> a \<noteq> v_pendingParamDefinitions fr \<and> a \<noteq> v_paramDefinitions fr
       \<and> v_requiredOptionMap fr \<noteq> Some a"
    "v_requiredOptionMap fr = Some b \<Longrightarrow>
       b \<noteq> v_args fr \<and> b \<noteq> v_commandArgs fr \<and> b \<noteq> v_commandExtraArgs fr
       \<and> b \<noteq> v_pendingParamDefinitions fr \<and> b \<noteq> v_paramDefinitions fr
       \<and> v_commandOptions fr \<noteq> Some b"
  using assms
  by (auto simp: frame_ok_def frame_refs_def split: option.splits)

lemma frame_ok_options:
  assumes "frame_ok n0 n fr"
  shows "v_commandOptions fr \<noteq> Some (v_args fr)"
    "v_commandOptions fr \<noteq> Some (v_commandArgs fr)"
    "v_commandOptions fr \<noteq> Some (v_commandExtraArgs fr)"
    "v_commandOptions fr \<noteq> Some (v_pendingParamDefinitions fr)"
    "v_requiredOptionMap fr \<noteq> Some (v_args fr)"
    "v_requiredOptionMap fr \<noteq> Some (v_commandArgs fr)"
    "v_requiredOptionMap fr \<noteq> Some (v_commandExtraArgs fr)"
    "v_requiredOptionMap fr \<noteq> Some (v_pendingParamDefinitions fr)"
    "v_commandOptions fr = Some a \<Longrightarrow> v_requiredOptionMap fr \<noteq> Some a"
  using assms
  by (auto simp: frame_ok_def frame_refs_def split: option.splits)

lemma frame_ok_base:
  assumes "frame_ok n0 n fr"
  shows "n0 \<le> v_args fr" "n0 \<le> v_commandArgs fr" "n0 \<le> v_commandExtraArgs fr"
    "n0 \<le> v_pendingParamDefinitions fr"
    "v_commandOptions fr = Some a \<Longrightarrow> n0 \<le> a"
    "v_requiredOptionMap fr = Some b \<Longrightarrow> n0 \<le> b"
  using assms by (auto simp: frame_ok_def frame_refs_def split: option.splits)

lemma deref_update:
  "deref value_table_at (h[a := obj]) r =
     (if r = Some a \<and> a < length h
      then (case obj of ValueTable t \<Rightarrow> Some (Some t) | _ \<Rightarrow> None)
      else deref value_table_at h r)"
  "deref required_table_at (h[a := obj]) r =
     (if r = Some a \<and> a < length h
      then (case obj of RequiredTable t \<Rightarrow> Some (Some t) | _ \<Rightarrow> None)
      else deref required_table_at h r)"
  by (cases r; cases obj; simp add: deref_def reads_update)+

lemma view_write_args:
  assumes "view h fr = Some st" and "frame_ok n0 (length h) fr"
  shows "view (h[v_args fr := StringArray xs]) fr = Some (st\<lparr>args := xs\<rparr>)"
  using assms(1) frame_ok_distinct(1-10) [OF assms(2)] frame_ok_options [OF assms(2)] reads_in_range(1) [of h "v_args fr"]
  by (simp add: view_iff reads_update deref_update)

lemma view_write_commandArgs:
  assumes "view h fr = Some st" and "frame_ok n0 (length h) fr"
  shows "view (h[v_commandArgs fr := ValueArray xs]) fr = Some (st\<lparr>commandArgs := xs\<rparr>)"
  using assms(1) frame_ok_distinct(1-10) [OF assms(2)] frame_ok_options [OF assms(2)] reads_in_range(2) [of h "v_commandArgs fr"]
  by (simp add: view_iff reads_update deref_update)

lemma view_write_commandExtraArgs:
  assumes "view h fr = Some st" and "frame_ok n0 (length h) fr"
  shows "view (h[v_commandExtraArgs fr := ValueArray xs]) fr = Some (st\<lparr>commandExtraArgs := xs\<rparr>)"
  using assms(1) frame_ok_distinct(1-10) [OF assms(2)] frame_ok_options [OF assms(2)] reads_in_range(2) [of h "v_commandExtraArgs fr"]
  by (simp add: view_iff reads_update deref_update)

lemma view_write_pending:
  assumes "view h fr = Some st" and "frame_ok n0 (length h) fr"
  shows "view (h[v_pendingParamDefinitions fr := ParamArray xs]) fr
         = Some (st\<lparr>pendingParamDefinitions := xs\<rparr>)"
  using assms(1) frame_ok_distinct(1-10) [OF assms(2)] frame_ok_options [OF assms(2)]
    reads_in_range(3) [of h "v_pendingParamDefinitions fr"]
  by (simp add: view_iff reads_update deref_update)

lemma view_write_commandOptions:
  assumes "view h fr = Some st" and "frame_ok n0 (length h) fr"
    and "v_commandOptions fr = Some a" and "value_table_at h a = Some t0"
  shows "view (h[a := ValueTable t]) fr = Some (st\<lparr>commandOptions := Some t\<rparr>)"
  using assms(1,3) frame_ok_distinct(11) [OF assms(2,3)] frame_ok_options [OF assms(2)]
    reads_in_range(5) [OF assms(4)]
  by (simp add: view_iff reads_update deref_update)

lemma view_write_requiredOptionMap:
  assumes "view h fr = Some st" and "frame_ok n0 (length h) fr"
    and "v_requiredOptionMap fr = Some a" and "required_table_at h a = Some t0"
  shows "view (h[a := RequiredTable t]) fr = Some (st\<lparr>requiredOptionMap := Some t\<rparr>)"
  using assms(1,3) frame_ok_distinct(12) [OF assms(2,3)] frame_ok_options [OF assms(2)]
    reads_in_range(6) [OF assms(4)]
  by (simp add: view_iff reads_update deref_update)

subsection \<open>Each step over the store does what the step on the state does\<close>

text \<open>A step writes to the objects of the frame only.\<close>

definition only_frame_written :: "frame \<Rightarrow> store \<Rightarrow> store \<Rightarrow> bool" where
  "only_frame_written fr h h' =
     (length h' = length h
      \<and> (\<forall>a. a \<notin> set (frame_refs fr) \<longrightarrow> object_at h' a = object_at h a))"

lemma only_frame_written_refl: "only_frame_written fr h h"
  by (simp add: only_frame_written_def)

lemma only_frame_written_trans:
  "only_frame_written fr h h1 \<Longrightarrow> only_frame_written fr h1 h2 \<Longrightarrow> only_frame_written fr h h2"
  by (simp add: only_frame_written_def)

lemma only_frame_written_update:
  "a \<in> set (frame_refs fr) \<Longrightarrow> only_frame_written fr h (h[a := obj])"
  by (auto simp: only_frame_written_def object_at_update)

lemma frame_refs_member:
  "v_args fr \<in> set (frame_refs fr)" "v_commandArgs fr \<in> set (frame_refs fr)"
  "v_commandExtraArgs fr \<in> set (frame_refs fr)"
  "v_pendingParamDefinitions fr \<in> set (frame_refs fr)"
  "v_commandOptions fr = Some a \<Longrightarrow> a \<in> set (frame_refs fr)"
  "v_requiredOptionMap fr = Some a \<Longrightarrow> a \<in> set (frame_refs fr)"
  by (auto simp: frame_refs_def split: option.splits)

lemma only_frame_written_length:
  "only_frame_written fr h h' \<Longrightarrow> length h' = length h"
  by (simp add: only_frame_written_def)

lemma only_frame_written_take:
  assumes "only_frame_written fr h h'" and "frame_ok n0 (length h) fr"
  shows "take n0 h' = take n0 h"
proof (rule nth_equalityI)
  from assms(1) show "length (take n0 h') = length (take n0 h)"
    by (simp add: only_frame_written_def)
next
  fix i
  assume "i < length (take n0 h')"
  with assms(1) have i: "i < n0" "i < length h" "i < length h'"
    by (simp_all add: only_frame_written_def)
  with assms(2) have "i \<notin> set (frame_refs fr)"
    by (auto simp: frame_ok_def)
  with assms(1) have "object_at h' i = object_at h i"
    by (simp add: only_frame_written_def)
  with i show "take n0 h' ! i = take n0 h ! i"
    by (simp add: object_at_def)
qed

lemma only_frame_written_paramDefinitions:
  assumes "only_frame_written fr h h'" and "frame_ok n0 (length h) fr"
  shows "params_at h' (v_paramDefinitions fr) = params_at h (v_paramDefinitions fr)"
  using assms by (simp add: only_frame_written_def frame_ok_def params_at_def)

text \<open>
  What a step over the store has to do, given the result of the same step on the state
  that the frame stood for: write to the objects of the frame only, throw the same error
  or complete with the frame standing for the new state.
\<close>

definition step_post :: "frame \<Rightarrow> store \<Rightarrow> error + parse_state \<Rightarrow> outcome \<Rightarrow> bool" where
  "step_post fr h res out =
     (only_frame_written fr h (snd out)
      \<and> (case res of
            Inl e \<Rightarrow> fst out = Some e
          | Inr st' \<Rightarrow> fst out = None \<and> view (snd out) fr = Some st'))"

lemma step_post_after:
  "only_frame_written fr h h1 \<Longrightarrow> step_post fr h1 res out \<Longrightarrow> step_post fr h res out"
  by (auto simp: step_post_def intro: only_frame_written_trans)

lemma step_post_cases:
  assumes "step_post fr h res out"
  obtains (error) e h' where "res = Inl e" "out = (Some e, h')" "only_frame_written fr h h'"
    | (ok) st' h' where "res = Inr st'" "out = (None, h')" "only_frame_written fr h h'"
        "view h' fr = Some st'"
  using assms by (cases res; cases out) (auto simp: step_post_def)

lemma frame_ok_after:
  "only_frame_written fr h h' \<Longrightarrow> frame_ok n0 (length h) fr \<Longrightarrow> frame_ok n0 (length h') fr"
  by (simp add: only_frame_written_def)

lemma instance_of_after:
  "only_frame_written fr h h' \<Longrightarrow> frame_ok n0 (length h) fr
   \<Longrightarrow> instance_of (take n0 h') this = instance_of (take n0 h) this"
  by (simp add: only_frame_written_take)

lemma instance_of_fields:
  assumes "instance_of (take n0 h) this = Some p"
  shows "own_property_s own_definitions_at h (this_optionDefinitionMap this) k
           = own_property (map_option own_definitions (optionDefinitionMap p)) k"
    and "own_property_s flag_table_at h (this_optionFlagMapping this) k
           = own_property (optionFlagMapping p) k"
    and "this_paramsDefinition this = paramsDefinition p"
    and "this_requiredParamsNumber this = requiredParamsNumber p"
    and "read_definition_s h (this_optionDefinitionMap this) k
           = read_definition (optionDefinitionMap p) k"
proof -
  from assms obtain pds ods odm ofm where
    d: "deref option_table_at (take n0 h) (this_optionDefinitionMap this) = Some odm"
       "deref flag_table_at (take n0 h) (this_optionFlagMapping this) = Some ofm"
    and p: "p = \<lparr>paramDefinitions = pds, paramsDefinition = this_paramsDefinition this,
                optionDefinitions = ods,
                requiredParamsNumber = this_requiredParamsNumber this,
                optionDefinitionMap = odm, optionFlagMapping = ofm\<rparr>"
    by (auto simp: instance_of_def split: option.splits)
  have r: "option_table_at (take n0 h) a = Some t \<Longrightarrow> option_table_at h a = Some t"
    "flag_table_at (take n0 h) a = Some u \<Longrightarrow> flag_table_at h a = Some u" for a t u
    by (auto simp: reads_defs object_at_take split: if_splits)
  have odm: "(case this_optionDefinitionMap this of None \<Rightarrow> None | Some a \<Rightarrow> option_table_at h a)
             = odm"
    using d(1) r(1) by (cases "this_optionDefinitionMap this") (auto simp: deref_def)
  have ofm: "(case this_optionFlagMapping this of None \<Rightarrow> None | Some a \<Rightarrow> flag_table_at h a)
             = ofm"
    using d(2) r(2) by (cases "this_optionFlagMapping this") (auto simp: deref_def)
  from odm p show "own_property_s own_definitions_at h (this_optionDefinitionMap this) k
           = own_property (map_option own_definitions (optionDefinitionMap p)) k"
    by (cases "this_optionDefinitionMap this")
       (auto simp: own_property_s_def own_definitions_at_def own_property_def)
  from ofm p show "own_property_s flag_table_at h (this_optionFlagMapping this) k
           = own_property (optionFlagMapping p) k"
    by (cases "this_optionFlagMapping this") (auto simp: own_property_s_def own_property_def)
  from p show "this_paramsDefinition this = paramsDefinition p"
    and "this_requiredParamsNumber this = requiredParamsNumber p"
    by simp_all
  from odm p show "read_definition_s h (this_optionDefinitionMap this) k
           = read_definition (optionDefinitionMap p) k"
    by (cases "this_optionDefinitionMap this")
       (auto simp: read_definition_s_def read_definition_def)
qed

lemma sim_assign_commandOption:
  assumes "view h fr = Some st" and "frame_ok n0 (length h) fr"
  shows "step_post fr h (assign_commandOption name v st)
           (assign_commandOption_s (v_commandOptions fr) h name v)"
proof (cases "v_commandOptions fr")
  case None
  with view_fields(5) [OF assms(1)] show ?thesis
    by (simp add: step_post_def assign_commandOption_def assign_commandOption_s_def deref_def
          only_frame_written_refl)
next
  case (Some a)
  with view_fields(5) [OF assms(1)] obtain t where
    t: "value_table_at h a = Some t" "commandOptions st = Some t"
    by (cases "value_table_at h a") (auto simp: deref_def)
  from view_write_commandOptions [OF assms Some t(1)] frame_refs_member(5) [OF Some] t Some
  show ?thesis
    by (simp add: step_post_def assign_commandOption_def assign_commandOption_s_def
          only_frame_written_update)
qed

lemma sim_delete_requiredOption:
  assumes "view h fr = Some st" and "frame_ok n0 (length h) fr"
  shows "step_post fr h (delete_requiredOption d name st)
           (delete_requiredOption_s (v_requiredOptionMap fr) h d name)"
proof (cases "od_required d")
  case False
  with assms(1) show ?thesis
    by (simp add: step_post_def delete_requiredOption_def delete_requiredOption_s_def
          only_frame_written_refl)
next
  case True
  show ?thesis
  proof (cases "v_requiredOptionMap fr")
    case None
    with True view_fields(6) [OF assms(1)] show ?thesis
      by (simp add: step_post_def delete_requiredOption_def delete_requiredOption_s_def deref_def
            only_frame_written_refl)
  next
    case (Some a)
    with view_fields(6) [OF assms(1)] obtain t where
      t: "required_table_at h a = Some t" "requiredOptionMap st = Some t"
      by (cases "required_table_at h a") (auto simp: deref_def)
    from view_write_requiredOptionMap [OF assms Some t(1)] frame_refs_member(6) [OF Some] t Some True
    show ?thesis
      by (simp add: step_post_def delete_requiredOption_def delete_requiredOption_s_def
            only_frame_written_update)
  qed
qed

lemma sim_consumeOption:
  assumes "view h fr = Some st" and "frame_ok n0 (length h) fr"
  shows "step_post fr h (consumeOption ToNumber ctx st name d)
           (consumeOption_s ToNumber ctx fr h name d)"
proof (cases "args st")
  case Nil
  with view_fields(1) [OF assms(1)] show ?thesis
    by (simp add: step_post_def consumeOption_def consumeOption_s_def only_frame_written_refl)
next
  case (Cons arg rest)
  let ?h1 = "h[v_args fr := StringArray rest]"
  have v1: "view ?h1 fr = Some (st\<lparr>args := rest\<rparr>)"
    by (rule view_write_args [OF assms])
  have w1: "only_frame_written fr h ?h1"
    by (rule only_frame_written_update [OF frame_refs_member(1)])
  show ?thesis
  proof (cases "char_at arg 0 = Some CHR ''-''")
    case True
    with Cons view_fields(1) [OF assms(1)] w1 show ?thesis
      by (simp add: step_post_def consumeOption_def consumeOption_s_def Let_def)
  next
    case False
    from assms(2) have "frame_ok n0 (length ?h1) fr" by simp
    from step_post_after [OF w1 sim_assign_commandOption [OF v1 this]]
    have "step_post fr h
            (assign_commandOption name (castArgument ToNumber ctx arg (od_type d)) (st\<lparr>args := rest\<rparr>))
            (assign_commandOption_s (v_commandOptions fr) ?h1 name
               (castArgument ToNumber ctx arg (od_type d)))" .
    with False Cons view_fields(1) [OF assms(1)] show ?thesis
      by (simp add: consumeOption_def consumeOption_s_def Let_def)
  qed
qed

lemma sim_consumeToggleOrOption:
  assumes "view h fr = Some st" and "frame_ok n0 (length h) fr"
    and "instance_of (take n0 h) this = Some p"
  shows "step_post fr h (consumeToggleOrOption ToNumber p ctx st name)
           (consumeToggleOrOption_s ToNumber this ctx fr h name)"
proof (cases "own_property (map_option own_definitions (optionDefinitionMap p)) name")
  case (Inl e)
  then show ?thesis
    by (simp add: consumeToggleOrOption_def consumeToggleOrOption_s_def
          instance_of_fields(1) [OF assms(3)] step_post_def only_frame_written_refl)
next
  case (Inr found)
  show ?thesis
  proof (cases found)
    case None
    with Inr show ?thesis
      by (simp add: consumeToggleOrOption_def consumeToggleOrOption_s_def
            instance_of_fields(1) [OF assms(3)] step_post_def only_frame_written_refl)
  next
    case (Some d)
    from sim_delete_requiredOption [OF assms(1,2), of d name] show ?thesis
    proof (cases rule: step_post_cases)
      case (error e h')
      with Inr Some show ?thesis
        by (simp add: consumeToggleOrOption_def consumeToggleOrOption_s_def
              instance_of_fields(1) [OF assms(3)] step_post_def)
    next
      case (ok st1 h1)
      from frame_ok_after [OF ok(3) assms(2)] have f1: "frame_ok n0 (length h1) fr" .
      have "step_post fr h1
              (if od_toggle d then assign_commandOption name (VBoolean True) st1
               else consumeOption ToNumber ctx st1 name d)
              (if od_toggle d then assign_commandOption_s (v_commandOptions fr) h1 name (VBoolean True)
               else consumeOption_s ToNumber ctx fr h1 name d)"
        using sim_assign_commandOption [OF ok(4) f1] sim_consumeOption [OF ok(4) f1] by simp
      from step_post_after [OF ok(3) this] Inr Some ok(1,2) show ?thesis
        by (simp add: consumeToggleOrOption_def consumeToggleOrOption_s_def
              instance_of_fields(1) [OF assms(3)])
    qed
  qed
qed

lemma sim_consumeFlags:
  assumes "view h fr = Some st" and "frame_ok n0 (length h) fr"
    and "instance_of (take n0 h) this = Some p"
  shows "step_post fr h (consumeFlags ToNumber p ctx st flags)
           (consumeFlags_s ToNumber this ctx fr h flags)"
  using assms
proof (induction flags arbitrary: h st)
  case Nil
  then show ?case by (simp add: step_post_def only_frame_written_refl)
next
  case (Cons flag flags)
  note inst = instance_of_fields(2,5) [OF Cons.prems(3)]
  consider (error) e where "own_property (optionFlagMapping p) [flag] = Inl e"
    | (unknown) "own_property (optionFlagMapping p) [flag] = Inr None"
    | (known) name where "own_property (optionFlagMapping p) [flag] = Inr (Some name)"
    by (cases "own_property (optionFlagMapping p) [flag]") auto
  then show ?case
  proof cases
    case error
    then show ?thesis by (simp add: inst step_post_def only_frame_written_refl)
  next
    case unknown
    then show ?thesis by (simp add: inst step_post_def only_frame_written_refl)
  next
    case name: (known name)
    show ?thesis
    proof (cases "read_definition (optionDefinitionMap p) name")
      case None
      with name show ?thesis by (simp add: inst step_post_def only_frame_written_refl)
    next
      case (Some d)
      from sim_delete_requiredOption [OF Cons.prems(1,2), of d name] show ?thesis
      proof (cases rule: step_post_cases)
        case (error e h')
        with name Some show ?thesis by (simp add: inst step_post_def)
      next
        case (ok st1 h1)
        from frame_ok_after [OF ok(3) Cons.prems(2)] have f1: "frame_ok n0 (length h1) fr" .
        from Cons.prems(3) instance_of_after [OF ok(3) Cons.prems(2)]
        have i1: "instance_of (take n0 h1) this = Some p" by simp
        show ?thesis
        proof (cases "od_toggle d")
          case True
          from sim_assign_commandOption [OF ok(4) f1, of name "VBoolean True"] show ?thesis
          proof (cases rule: step_post_cases)
            case e2: (error e h')
            from only_frame_written_trans [OF ok(3) e2(3)] name Some ok e2 True show ?thesis
              by (simp add: inst step_post_def)
          next
            case ok2: (ok st2 h2)
            from frame_ok_after [OF ok2(3) f1] have f2: "frame_ok n0 (length h2) fr" .
            from i1 instance_of_after [OF ok2(3) f1]
            have i2: "instance_of (take n0 h2) this = Some p" by simp
            from step_post_after [OF only_frame_written_trans [OF ok(3) ok2(3)]
                Cons.IH [OF ok2(4) f2 i2]]
            have "step_post fr h (consumeFlags ToNumber p ctx st2 flags)
                    (consumeFlags_s ToNumber this ctx fr h2 flags)" .
            with name Some ok ok2 True show ?thesis by (simp add: inst)
          qed
        next
          case False
          show ?thesis
          proof (cases "flags = []")
            case nonlast: False
            with name Some ok False show ?thesis by (simp add: inst step_post_def)
          next
            case last: True
            from sim_consumeOption [OF ok(4) f1, of ToNumber ctx name d] show ?thesis
            proof (cases rule: step_post_cases)
              case e2: (error e h')
              from only_frame_written_trans [OF ok(3) e2(3)] name Some ok e2 False last
              show ?thesis by (simp add: inst step_post_def)
            next
              case ok2: (ok st2 h2)
              from only_frame_written_trans [OF ok(3) ok2(3)] name Some ok ok2 False last
              show ?thesis by (simp add: inst step_post_def)
            qed
          qed
        qed
      qed
    qed
  qed
qed

lemma sim_consumeArgument:
  assumes "view h fr = Some st" and "frame_ok n0 (length h) fr"
    and "instance_of (take n0 h) this = Some p"
  shows "step_post fr h (Inr (consumeArgument ToNumber p ctx st arg))
           (consumeArgument_s ToNumber this ctx fr h arg)"
proof (cases "pendingParamDefinitions st")
  case Nil
  from view_write_commandExtraArgs [OF assms(1,2)] view_fields(3,4) [OF assms(1)] Nil
  show ?thesis
    by (simp add: consumeArgument_def consumeArgument_s_def step_post_def
          instance_of_fields(3) [OF assms(3)] only_frame_written_update frame_refs_member)
next
  case (Cons d pending)
  let ?h1 = "h[v_pendingParamDefinitions fr := ParamArray pending]"
  have v1: "view ?h1 fr = Some (st\<lparr>pendingParamDefinitions := pending\<rparr>)"
    by (rule view_write_pending [OF assms(1,2)])
  from assms(2) have f1: "frame_ok n0 (length ?h1) fr" by simp
  have w: "only_frame_written fr h (?h1[v_commandArgs fr := ValueArray xs])" for xs
    by (rule only_frame_written_trans [OF only_frame_written_update only_frame_written_update])
       (rule frame_refs_member)+
  from view_write_commandArgs [OF v1 f1] view_fields(2) [OF v1] view_fields(4) [OF assms(1)] Cons w
  show ?thesis
    by (simp add: consumeArgument_def consumeArgument_s_def step_post_def Let_def)
qed

lemma sim_consumeToken:
  assumes "view h fr = Some st" and "frame_ok n0 (length h) fr"
    and "instance_of (take n0 h) this = Some p"
  shows "step_post fr h (consumeToken ToNumber p ctx st arg)
           (consumeToken_s ToNumber this ctx fr h arg)"
  using sim_consumeToggleOrOption [OF assms] sim_consumeFlags [OF assms]
    sim_consumeArgument [OF assms]
  by (simp add: consumeToken_def consumeToken_s_def)

subsection \<open>The loop over the store\<close>

lemma consume_loop_s_Nil:
  "strings_at h (v_args fr) = Some [] \<Longrightarrow>
   consume_loop_s ToNumber this ctx fr h = Some (Inr Fallthrough_s, h)"
  by (subst consume_loop_s.simps) simp

lemma consume_loop_s_Cons:
  "strings_at h (v_args fr) = Some (arg # rest) \<Longrightarrow>
   consume_loop_s ToNumber this ctx fr h =
     (if is_help arg then Some (Inr (Return_s help_result_s), h[v_args fr := StringArray rest])
      else (case consumeToken_s ToNumber this ctx fr (h[v_args fr := StringArray rest]) arg of
              (Some e, h2) \<Rightarrow> Some (Inl e, h2)
            | (None, h2) \<Rightarrow> consume_loop_s ToNumber this ctx fr h2))"
  by (subst consume_loop_s.simps) (simp add: Let_def)

text \<open>
  The loop over the store ends, with the exit of the loop on the state; it writes to the
  objects of the frame only.
\<close>

definition loop_post ::
  "frame \<Rightarrow> store \<Rightarrow> error + loop_exit \<Rightarrow> ((error + loop_exit_s) \<times> store) option \<Rightarrow> bool" where
  "loop_post fr h res out =
     (\<exists>r h'. out = Some (r, h') \<and> only_frame_written fr h h'
        \<and> (case res of
              Inl e \<Rightarrow> r = Inl e
            | Inr (Return result) \<Rightarrow> r = Inr (Return_s help_result_s) \<and> result = help_result
            | Inr (Fallthrough st') \<Rightarrow> r = Inr Fallthrough_s \<and> view h' fr = Some st'))"

lemma loop_post_after:
  "only_frame_written fr h h1 \<Longrightarrow> loop_post fr h1 res out \<Longrightarrow> loop_post fr h res out"
  by (auto simp: loop_post_def intro: only_frame_written_trans)

lemma sim_consume_loop:
  "view h fr = Some st \<Longrightarrow> frame_ok n0 (length h) fr
   \<Longrightarrow> instance_of (take n0 h) this = Some p
   \<Longrightarrow> loop_post fr h (consume_loop ToNumber p ctx st) (consume_loop_s ToNumber this ctx fr h)"
proof (induction ToNumber p ctx st arbitrary: h rule: consume_loop.induct)
  case (1 ToNumber p ctx st)
  show ?case
  proof (cases "args st")
    case Nil
    with view_fields(1) [OF "1.prems"(1)] "1.prems"(1) show ?thesis
      by (simp add: consume_loop_Nil consume_loop_s_Nil loop_post_def only_frame_written_refl)
  next
    case (Cons arg rest)
    let ?h1 = "h[v_args fr := StringArray rest]"
    from view_fields(1) [OF "1.prems"(1)] Cons
    have s: "strings_at h (v_args fr) = Some (arg # rest)" by simp
    have v1: "view ?h1 fr = Some (st\<lparr>args := rest\<rparr>)"
      by (rule view_write_args [OF "1.prems"(1,2)])
    have w1: "only_frame_written fr h ?h1"
      by (rule only_frame_written_update [OF frame_refs_member(1)])
    from "1.prems"(2) have f1: "frame_ok n0 (length ?h1) fr" by simp
    from "1.prems"(3) instance_of_after [OF w1 "1.prems"(2)]
    have i1: "instance_of (take n0 ?h1) this = Some p" by simp
    show ?thesis
    proof (cases "is_help arg")
      case True
      with Cons s w1 show ?thesis
        by (simp add: consume_loop_Cons consume_loop_s_Cons loop_post_def)
    next
      case False
      from sim_consumeToken [OF v1 f1 i1, of ToNumber ctx arg] show ?thesis
      proof (cases rule: step_post_cases)
        case (error e h')
        from only_frame_written_trans [OF w1 error(3)] error(1,2) Cons s False show ?thesis
          by (simp add: consume_loop_Cons consume_loop_s_Cons loop_post_def)
      next
        case (ok st2 h2)
        from frame_ok_after [OF ok(3) f1] have f2: "frame_ok n0 (length h2) fr" .
        from i1 instance_of_after [OF ok(3) f1]
        have i2: "instance_of (take n0 h2) this = Some p" by simp
        from loop_post_after [OF only_frame_written_trans [OF w1 ok(3)]
            "1.IH" [OF Cons False ok(1) ok(4) f2 i2]]
        have "loop_post fr h (consume_loop ToNumber p ctx st2)
                (consume_loop_s ToNumber this ctx fr h2)" .
        with ok(1,2) Cons s False show ?thesis
          by (simp add: consume_loop_Cons consume_loop_s_Cons)
      qed
    qed
  qed
qed

subsection \<open>The statements before the loop\<close>

text \<open>A store that has grown: the objects there before are as they were.\<close>

definition extends :: "store \<Rightarrow> store \<Rightarrow> bool" where
  "extends h h' = (\<exists>xs. h' = h @ xs)"

lemma extends_refl: "extends h h"
  by (simp add: extends_def)

lemma extends_length: "extends h h' \<Longrightarrow> length h \<le> length h'"
  by (auto simp: extends_def)

lemma extends_trans: "extends h h1 \<Longrightarrow> extends h1 h2 \<Longrightarrow> extends h h2"
  by (auto simp: extends_def)

lemma extends_append: "extends h (h @ xs)"
  by (simp add: extends_def)

lemma extends_take: "extends h h' \<Longrightarrow> take (length h) h' = h"
  by (auto simp: extends_def)

lemma extends_object_at:
  "extends h h' \<Longrightarrow> a < length h \<Longrightarrow> object_at h' a = object_at h a"
  by (auto simp: extends_def object_at_def nth_append)

lemma extends_reads:
  assumes "extends h h'" and "a < length h"
  shows "strings_at h' a = strings_at h a" and "values_at h' a = values_at h a"
    and "params_at h' a = params_at h a" and "options_at h' a = options_at h a"
    and "value_table_at h' a = value_table_at h a"
    and "required_table_at h' a = required_table_at h a"
    and "option_table_at h' a = option_table_at h a"
    and "flag_table_at h' a = flag_table_at h a"
  by (simp_all add: reads_defs extends_object_at [OF assms])

lemma extends_update:
  "length h \<le> a \<Longrightarrow> extends h h1 \<Longrightarrow> extends h (h1[a := obj])"
  by (auto simp: extends_def list_update_append)

lemma value_table_object:
  "value_table_at h a = Some t \<Longrightarrow> object_at h a = Some (ValueTable t)"
  unfolding value_table_at_def
  by (cases "object_at h a") (simp, rename_tac obj, case_tac obj, simp_all)

lemma required_table_object:
  "required_table_at h a = Some t \<Longrightarrow> object_at h a = Some (RequiredTable t)"
  unfolding required_table_at_def
  by (cases "object_at h a") (simp, rename_tac obj, case_tac obj, simp_all)

lemma tables_distinct:
  assumes "value_table_at h a = Some t" and "required_table_at h b = Some u"
  shows "a \<noteq> b"
proof
  assume "a = b"
  with value_table_object [OF assms(1)] required_table_object [OF assms(2)]
  show False by simp
qed

lemma init_options_s_tables:
  assumes "value_table_at h co = Some t1" and "required_table_at h rm = Some t2"
    and "n \<le> co" and "n \<le> rm" and "extends h0 h" and "length h0 = n"
  shows "\<exists>h'. init_options_s (Some co) (Some rm) h ds = (None, h')
           \<and> length h' = length h \<and> extends h0 h'
           \<and> value_table_at h' co = Some (fst (foldl init_option (t1, t2) ds))
           \<and> required_table_at h' rm = Some (snd (foldl init_option (t1, t2) ds))"
  using assms(1,2,5)
proof (induction ds arbitrary: h t1 t2)
  case Nil
  then show ?case by simp
next
  case (Cons d ds)
  from Cons.prems(1,2) have ne: "co \<noteq> rm"
    by (rule tables_distinct)
  define u2 where "u2 = (if od_required d then assign_property (od_name d) True t2 else t2)"
  define u1 where "u1 = assign_property (od_name d)
               (if od_toggle d then VBoolean False else od_default d) t1"
  have "\<exists>h1. (if od_required d then assign_requiredOption_s (Some rm) h (od_name d)
               else (None, h)) = (None, h1)
          \<and> length h1 = length h \<and> extends h0 h1
          \<and> value_table_at h1 co = Some t1 \<and> required_table_at h1 rm = Some u2"
  proof (cases "od_required d")
    case True
    from Cons.prems(1,2,3) ne reads_in_range(6) [OF Cons.prems(2)] assms(4,6) True
    show ?thesis
      by (simp add: assign_requiredOption_s_def reads_update extends_update u2_def)
  next
    case False
    with Cons.prems show ?thesis by (simp add: u2_def)
  qed
  then obtain h1 where
    r1: "(if od_required d then assign_requiredOption_s (Some rm) h (od_name d)
          else (None, h)) = (None, h1)"
    and h1: "length h1 = length h" "extends h0 h1" "value_table_at h1 co = Some t1"
      "required_table_at h1 rm = Some u2"
    by blast
  define h2 where "h2 = h1[co := ValueTable u1]"
  from h1(3) have r2: "assign_commandOption_s (Some co) h1 (od_name d)
                  (if od_toggle d then VBoolean False else od_default d) = (None, h2)"
    by (simp add: assign_commandOption_s_def h2_def u1_def)
  from reads_in_range(5) [OF h1(3)] have v2: "value_table_at h2 co = Some u1"
    by (simp add: reads_update h2_def)
  from h1(4) ne have q2: "required_table_at h2 rm = Some u2"
    by (simp add: reads_update h2_def)
  from h1(2) assms(3,6) have e2: "extends h0 h2"
    by (simp add: extends_update h2_def)
  have l2: "length h2 = length h"
    using h1(1) by (simp add: h2_def)
  have step: "init_option (t1, t2) d = (u1, u2)"
    by (simp add: init_option_def Let_def u1_def u2_def)
  have unfold: "init_options_s (Some co) (Some rm) h (d # ds)
                = init_options_s (Some co) (Some rm) h2 ds"
    by (simp only: init_options_s.simps(2) r1 r2 prod.case option.case)
  from Cons.IH [OF v2 q2 e2] obtain h' where
    "init_options_s (Some co) (Some rm) h2 ds = (None, h')"
    "length h' = length h2" "extends h0 h'"
    "value_table_at h' co = Some (fst (foldl init_option (u1, u2) ds))"
    "required_table_at h' rm = Some (snd (foldl init_option (u1, u2) ds))"
    by blast
  with unfold l2 step show ?case
    by (simp only: foldl_Cons) blast
qed

lemma instance_of_deref:
  assumes "instance_of h this = Some p"
  shows "deref params_at h (this_paramDefinitions this) = Some (paramDefinitions p)"
    and "deref options_at h (this_optionDefinitions this) = Some (optionDefinitions p)"
  using assms by (auto simp: instance_of_def split: option.splits)

lemma deref_Some:
  "deref read h (Some a) = Some x \<Longrightarrow> \<exists>y. read h a = Some y \<and> x = Some y"
  by (cases "read h a") (auto simp: deref_def)

lemma deref_None: "deref read h None = Some x \<Longrightarrow> x = None"
  by (simp add: deref_def)

lemma sim_option_tables:
  assumes "instance_of h0 this = Some p" and "extends h0 h"
  shows "\<exists>co rm h'. option_tables_s this h = (None, co, rm, h') \<and> extends h h'
           \<and> deref value_table_at h' co
               = Some (map_option fst (map_option (foldl init_option ([], [])) (optionDefinitions p)))
           \<and> deref required_table_at h' rm
               = Some (map_option snd (map_option (foldl init_option ([], [])) (optionDefinitions p)))
           \<and> (\<forall>a. co = Some a \<longrightarrow> length h \<le> a \<and> a < length h')
           \<and> (\<forall>a. rm = Some a \<longrightarrow> length h \<le> a \<and> a < length h')
           \<and> (\<forall>a. co = Some a \<longrightarrow> rm \<noteq> Some a)"
proof (cases "this_optionDefinitions this")
  case None
  with instance_of_deref(2) [OF assms(1)] have "optionDefinitions p = None"
    by (simp add: deref_def)
  with None show ?thesis
    by (simp add: option_tables_s_def extends_refl deref_def)
next
  case (Some a)
  with instance_of_deref(2) [OF assms(1)] obtain ods where
    ods: "options_at h0 a = Some ods" "optionDefinitions p = Some ods"
    by (auto dest: deref_Some)
  define h2 where "h2 = h @ [ValueTable [], RequiredTable []]"
  have e2: "extends h h2" by (simp add: h2_def extends_append)
  from extends_trans [OF assms(2) e2] reads_in_range(4) [OF ods(1)] ods(1)
  have o2: "options_at h2 a = Some ods"
    by (simp add: extends_reads)
  have v2: "value_table_at h2 (length h) = Some []"
    by (simp add: h2_def value_table_at_def object_at_def nth_append)
  have q2: "required_table_at h2 (Suc (length h)) = Some []"
    by (simp add: h2_def required_table_at_def object_at_def nth_append)
  from init_options_s_tables [OF v2 q2 _ _ e2, of "length h" ods] obtain h' where
    h': "init_options_s (Some (length h)) (Some (Suc (length h))) h2 ods = (None, h')"
      "length h' = length h2" "extends h h'"
      "value_table_at h' (length h) = Some (fst (foldl init_option ([], []) ods))"
      "required_table_at h' (Suc (length h)) = Some (snd (foldl init_option ([], []) ods))"
    by auto
  have "option_tables_s this h = (None, Some (length h), Some (Suc (length h)), h')"
    using Some o2 h'(1) by (simp add: option_tables_s_def alloc_def Let_def h2_def)
  with h' ods(2) show ?thesis
    by (simp add: deref_def h2_def)
qed

lemma sim_paramDefinitions:
  assumes "instance_of h0 this = Some p" and "extends h0 h"
  shows "\<exists>a h'. (case this_paramDefinitions this of
                   None \<Rightarrow> alloc (ParamArray []) h
                 | Some a \<Rightarrow> (a, h)) = (a, h')
           \<and> extends h h' \<and> params_at h' a = Some (paramDefinitions_of p)
           \<and> (a < length h0 \<and> h' = h \<or> a = length h \<and> length h' = Suc (length h))"
proof (cases "this_paramDefinitions this")
  case None
  with instance_of_deref(1) [OF assms(1)] have "paramDefinitions p = None"
    by (simp add: deref_def)
  with None show ?thesis
    by (simp add: alloc_def extends_append paramDefinitions_of_def params_at_def object_at_def)
next
  case (Some a)
  with instance_of_deref(1) [OF assms(1)] obtain pds where
    pds: "params_at h0 a = Some pds" "paramDefinitions p = Some pds"
    by (auto dest: deref_Some)
  from assms(2) reads_in_range(3) [OF pds(1)] pds Some show ?thesis
    by (simp add: extends_refl extends_reads paramDefinitions_of_def)
qed

lemma sim_prologue:
  assumes "instance_of h this = Some p" and "strings_at h args_ref = Some tokens"
  shows "\<exists>fr h'. prologue_s this args_ref h = (Inr fr, h') \<and> extends h h'
           \<and> frame_ok (length h) (length h') fr
           \<and> view h' fr = Some (initial_state p tokens)
           \<and> params_at h' (v_paramDefinitions fr) = Some (paramDefinitions_of p)"
proof -
  define n where "n = length h"
  define h3 where "h3 = h @ [StringArray tokens, ValueArray [], ValueArray []]"
  have e3: "extends h h3" by (simp add: h3_def extends_append)
  have l3: "length h3 = n + 3" by (simp add: h3_def n_def)
  have r3: "strings_at h3 n = Some tokens" "values_at h3 (Suc n) = Some []"
    "values_at h3 (Suc (Suc n)) = Some []"
    by (simp_all add: h3_def n_def reads_defs object_at_def nth_append)
  from sim_option_tables [OF assms(1) e3] obtain co rm h4 where
    ot: "option_tables_s this h3 = (None, co, rm, h4)"
    and e4: "extends h3 h4"
    and t4: "deref value_table_at h4 co
               = Some (map_option fst (map_option (foldl init_option ([], [])) (optionDefinitions p)))"
       "deref required_table_at h4 rm
               = Some (map_option snd (map_option (foldl init_option ([], [])) (optionDefinitions p)))"
    and c4: "\<And>a. co = Some a \<Longrightarrow> length h3 \<le> a \<and> a < length h4"
       "\<And>a. rm = Some a \<Longrightarrow> length h3 \<le> a \<and> a < length h4"
       "\<And>a. co = Some a \<Longrightarrow> rm \<noteq> Some a"
    by blast
  from sim_paramDefinitions [OF assms(1) extends_trans [OF e3 e4]] obtain a_pd h5 where
    pd: "(case this_paramDefinitions this of
            None \<Rightarrow> alloc (ParamArray []) h4
          | Some a \<Rightarrow> (a, h4)) = (a_pd, h5)"
    and e5: "extends h4 h5"
    and p5: "params_at h5 a_pd = Some (paramDefinitions_of p)"
    and a5: "a_pd < length h \<and> h5 = h4 \<or> a_pd = length h4 \<and> length h5 = Suc (length h4)"
    by blast
  define h6 where "h6 = h5 @ [ParamArray (paramDefinitions_of p)]"
  define fr where "fr = \<lparr>v_args = n, v_commandArgs = Suc n, v_commandOptions = co,
      v_commandExtraArgs = Suc (Suc n), v_requiredOptionMap = rm,
      v_paramDefinitions = a_pd, v_pendingParamDefinitions = length h5\<rparr>"
  have e6: "extends h5 h6" by (simp add: h6_def extends_append)
  have l4: "length h3 \<le> length h4" by (rule extends_length [OF e4])
  have l5: "length h4 \<le> length h5" by (rule extends_length [OF e5])
  have l6: "length h6 = Suc (length h5)" by (simp add: h6_def)
  have run: "prologue_s this args_ref h = (Inr fr, h6)"
    using assms(2) ot pd p5
    by (simp add: prologue_s_def alloc_def Let_def h3_def [symmetric] n_def [symmetric]
          fr_def h6_def)
  have e36: "extends h3 h6" by (rule extends_trans [OF e4 extends_trans [OF e5 e6]])
  have e46: "extends h4 h6" by (rule extends_trans [OF e5 e6])
  have ext: "extends h h6" by (rule extends_trans [OF e3 e36])
  have reads: "strings_at h6 n = Some tokens" "values_at h6 (Suc n) = Some []"
    "values_at h6 (Suc (Suc n)) = Some []"
    using r3 l3 by (simp_all add: extends_reads [OF e36])
  have pend: "params_at h6 (length h5) = Some (paramDefinitions_of p)"
    by (simp add: h6_def params_at_def object_at_def)
  have co6: "deref value_table_at h6 co = deref value_table_at h4 co"
    using c4(1) by (cases co) (simp_all add: deref_def extends_reads [OF e46])
  have rm6: "deref required_table_at h6 rm = deref required_table_at h4 rm"
    using c4(2) by (cases rm) (simp_all add: deref_def extends_reads [OF e46])
  have v: "view h6 fr = Some (initial_state p tokens)"
    using reads pend co6 rm6 t4
    by (simp add: view_iff fr_def initial_state_def Let_def)
  have pd6: "params_at h6 (v_paramDefinitions fr) = Some (paramDefinitions_of p)"
  proof -
    from a5 l5 have "a_pd < length h5" using extends_length [OF extends_trans [OF e3 e4]]
      by auto
    with p5 show ?thesis by (simp add: fr_def extends_reads [OF e6])
  qed
  have ok: "frame_ok (length h) (length h6) fr"
  proof -
    have refs: "frame_refs fr = [n, Suc n, Suc (Suc n), length h5]
        @ (case co of None \<Rightarrow> [] | Some a \<Rightarrow> [a]) @ (case rm of None \<Rightarrow> [] | Some a \<Rightarrow> [a])"
      by (simp add: frame_refs_def fr_def)
    have cb: "co = Some a \<Longrightarrow> n + 3 \<le> a \<and> a < length h4" for a
      using c4(1) [of a] l3 by simp
    have rb: "rm = Some a \<Longrightarrow> n + 3 \<le> a \<and> a < length h4" for a
      using c4(2) [of a] l3 by simp
    have n5: "n + 3 \<le> length h5" using l3 l4 l5 by simp
    have d: "distinct (frame_refs fr)"
      using cb rb c4(3) n5 l5 unfolding refs
      by (cases co; cases rm) auto
    have b: "\<forall>a \<in> set (frame_refs fr). length h \<le> a \<and> a < length h6"
      using cb rb n5 l5 l6 unfolding refs n_def [symmetric]
      by (cases co; cases rm) auto
    have npd: "v_paramDefinitions fr \<notin> set (frame_refs fr) \<and> v_paramDefinitions fr < length h6"
    proof -
      have "v_paramDefinitions fr = a_pd" by (simp add: fr_def)
      moreover from a5 have "a_pd \<notin> set (frame_refs fr) \<and> a_pd < length h6"
      proof
        assume "a_pd < length h \<and> h5 = h4"
        with cb rb n5 l6 show ?thesis
          unfolding refs n_def [symmetric] by (cases co; cases rm) auto
      next
        assume "a_pd = length h4 \<and> length h5 = Suc (length h4)"
        with cb rb n5 l6 l3 l4 show ?thesis
          unfolding refs by (cases co; cases rm) auto
      qed
      ultimately show ?thesis by simp
    qed
    from d b npd show ?thesis by (simp add: frame_ok_def)
  qed
  from run ext ok v pd6 show ?thesis by blast
qed

subsection \<open>The code after the loop\<close>

text \<open>The references that a result object holds.\<close>

definition result_refs :: "ParsedArgs_object \<Rightarrow> addr set" where
  "result_refs ro = set_option (ref_args ro) \<union> set_option (ref_extraArgs ro)
                    \<union> set_option (ref_options ro)"

lemma sim_validation_stage:
  assumes "view h fr = Some st" and "frame_ok n0 (length h) fr"
    and "instance_of (take n0 h) this = Some p"
    and "params_at h (v_paramDefinitions fr) = Some (paramDefinitions_of p)"
  shows "\<exists>r h'. validation_stage_s this ctx fr h = (r, h') \<and> only_frame_written fr h h'
           \<and> (case validation_stage p ctx st of
                 Inl e \<Rightarrow> r = Inl e
               | Inr result \<Rightarrow>
                   (\<exists>ro. r = Inr ro \<and> read_result h' ro = result
                      \<and> result_refs ro \<subseteq> set (frame_refs fr)))"
proof -
  note f = view_fields [OF assms(1)]
  note i = instance_of_fields(3,4) [OF assms(3)]
  define h1 where "h1 = h[v_commandArgs fr :=
      ValueArray (commandArgs st @ map pd_default (pendingParamDefinitions st))]"
  define st1 where "st1 = st\<lparr>commandArgs :=
      commandArgs st @ map pd_default (pendingParamDefinitions st)\<rparr>"
  define ro where "ro = \<lparr>ref_args = Some (v_commandArgs fr),
      ref_extraArgs = Some (v_commandExtraArgs fr), ref_options = v_commandOptions fr,
      val_context = Some ctx, val_help = None\<rparr>"
  define result where "result = \<lparr>res_args = Some (commandArgs st @ map pd_default (pendingParamDefinitions st)),
      res_extraArgs = Some (commandExtraArgs st), res_options = commandOptions st,
      res_context = Some ctx, res_help = None\<rparr>"
  have w1: "only_frame_written fr h h1"
    unfolding h1_def by (rule only_frame_written_update [OF frame_refs_member(2)])
  have v1: "view h1 fr = Some st1"
    unfolding h1_def st1_def by (rule view_write_commandArgs [OF assms(1,2)])
  have opts: "(case v_commandOptions fr of None \<Rightarrow> None | Some a \<Rightarrow> value_table_at h1 a)
              = commandOptions st"
    using view_fields(5) [OF v1]
    by (cases "v_commandOptions fr") (auto simp: deref_def st1_def)
  have rr: "read_result h1 ro = result"
    using view_fields(2,3) [OF v1] opts
    by (simp add: read_result_def ro_def result_def st1_def)
  have req: "(case v_requiredOptionMap fr of None \<Rightarrow> Some None
              | Some a \<Rightarrow> map_option Some (required_table_at h a)) = Some (requiredOptionMap st)"
    using f(6) by (simp add: deref_def)
  have s: "validation_stage_s this ctx fr h =
     (let expecting = requiredParamsNumber p;
          got = length (commandArgs st)
      in if got < expecting
         then (Inl (UsageError (''Expecting argument(s) '' @
                join '', '' (map (\<lambda>definition. ''`'' @ pd_name definition @ ''`'')
                               (take (expecting - got) (pendingParamDefinitions st))))), h)
         else
           (case map_option Object_keys (requiredOptionMap st) of
              Some (n # ns) \<Rightarrow>
                (Inl (UsageError (''Missing required option(s) `'' @ join ''`, `'' (n # ns) @ ''`'')), h)
            | _ \<Rightarrow>
                if commandExtraArgs st \<noteq> []
                then (case paramsDefinition p of
                        None \<Rightarrow>
                          (Inl (UsageError (''Expecting '' @ show_nat (length (paramDefinitions_of p)) @
                                        '' parameter(s) at most but got '' @
                                        show_nat (length (commandExtraArgs st)
                                                  + length (paramDefinitions_of p)) @
                                        '' instead'')), h1)
                      | Some definition \<Rightarrow> (Inr ro, h1))
                else (case paramsDefinition p of
                        None \<Rightarrow> (Inr ro, h1)
                      | Some definition \<Rightarrow>
                          if vd_required definition
                          then (Inl (UsageError
                            (''Expecting at least one element for variadic parameters `''
                             @ vd_name definition @ ''`'')), h1)
                          else (Inr ro, h1))))"
    unfolding validation_stage_s_def
    by (simp only: f assms(4) req i prod.case option.case Let_def h1_def ro_def)
  have p: "validation_stage p ctx st =
     (let expecting = requiredParamsNumber p;
          got = length (commandArgs st)
      in if got < expecting
         then Inl (UsageError (''Expecting argument(s) '' @
                join '', '' (map (\<lambda>definition. ''`'' @ pd_name definition @ ''`'')
                               (take (expecting - got) (pendingParamDefinitions st)))))
         else
           (case map_option Object_keys (requiredOptionMap st) of
              Some (n # ns) \<Rightarrow>
                Inl (UsageError (''Missing required option(s) `'' @ join ''`, `'' (n # ns) @ ''`''))
            | _ \<Rightarrow>
                if commandExtraArgs st \<noteq> []
                then (case paramsDefinition p of
                        None \<Rightarrow>
                          Inl (UsageError (''Expecting '' @ show_nat (length (paramDefinitions_of p)) @
                                        '' parameter(s) at most but got '' @
                                        show_nat (length (commandExtraArgs st)
                                                  + length (paramDefinitions_of p)) @
                                        '' instead''))
                      | Some definition \<Rightarrow> Inr result)
                else (case paramsDefinition p of
                        None \<Rightarrow> Inr result
                      | Some definition \<Rightarrow>
                          if vd_required definition
                          then Inl (UsageError
                            (''Expecting at least one element for variadic parameters `''
                             @ vd_name definition @ ''`''))
                          else Inr result)))"
    unfolding validation_stage_def result_def by (simp only: Let_def)
  have refs: "result_refs ro \<subseteq> set (frame_refs fr)"
    by (auto simp: result_refs_def ro_def frame_refs_def split: option.splits)
  show ?thesis
    unfolding s p Let_def
    using w1 rr refs only_frame_written_refl [of fr h]
    by (auto split: option.splits list.splits)
qed

subsection \<open>A call over the store\<close>

text \<open>What a call gives its caller: the error thrown, or the result read from the store.\<close>

definition outcome_of :: "store \<Rightarrow> error + ParsedArgs_object \<Rightarrow> error + ParsedArgs" where
  "outcome_of h r = (case r of Inl e \<Rightarrow> Inl e | Inr ro \<Rightarrow> Inr (read_result h ro))"

definition outcome_refs :: "error + ParsedArgs_object \<Rightarrow> addr set" where
  "outcome_refs r = (case r of Inl e \<Rightarrow> {} | Inr ro \<Rightarrow> result_refs ro)"

lemma take_extends: "take (length h) h' = h \<Longrightarrow> extends h h'"
  unfolding extends_def by (metis append_take_drop_id)

lemma read_result_extends:
  assumes "extends h h'" and "\<forall>a \<in> result_refs ro. a < length h"
  shows "read_result h' ro = read_result h ro"
  using assms(2)
  by (cases "ref_args ro"; cases "ref_extraArgs ro"; cases "ref_options ro")
     (simp_all add: read_result_def result_refs_def extends_reads [OF assms(1)])

lemma outcome_of_extends:
  assumes "extends h h'" and "\<forall>a \<in> outcome_refs r. a < length h"
  shows "outcome_of h' r = outcome_of h r"
  using assms by (cases r) (simp_all add: outcome_of_def outcome_refs_def read_result_extends)

lemma instance_of_extends:
  assumes "instance_of h this = Some p" and "extends h h'"
  shows "instance_of h' this = Some p"
proof -
  from assms(2) have "take (length h) h' = h" by (rule extends_take)
  with assms(1) have i: "instance_of (take (length h) h') this = Some p" by simp
  have r: "deref params_at (take n h') x = Some y \<Longrightarrow> deref params_at h' x = Some y"
    "deref options_at (take n h') x = Some z \<Longrightarrow> deref options_at h' x = Some z"
    "deref option_table_at (take n h') x = Some u \<Longrightarrow> deref option_table_at h' x = Some u"
    "deref flag_table_at (take n h') x = Some v \<Longrightarrow> deref flag_table_at h' x = Some v"
    for n x y z u v
    by (cases x; auto simp: deref_def reads_defs object_at_take split: if_splits)+
  from i show ?thesis
    by (auto simp: instance_of_def split: option.splits dest!: r)
qed

lemma parse_s_refines:
  assumes "instance_of h this = Some p" and "strings_at h args_ref = Some tokens"
  shows "\<exists>r h'. parse_s ToNumber this sequence args_ref dir h = Some (r, h') \<and> extends h h'
           \<and> outcome_of h' r = parse ToNumber p sequence tokens dir
           \<and> (\<forall>a \<in> outcome_refs r. length h \<le> a \<and> a < length h')"
proof -
  let ?ctx = "\<lparr>cwd = dir, commands = sequence\<rparr>"
  from sim_prologue [OF assms] obtain fr h1 where
    pro: "prologue_s this args_ref h = (Inr fr, h1)"
    and e1: "extends h h1"
    and f1: "frame_ok (length h) (length h1) fr"
    and v1: "view h1 fr = Some (initial_state p tokens)"
    and p1: "params_at h1 (v_paramDefinitions fr) = Some (paramDefinitions_of p)"
    by blast
  from assms(1) extends_take [OF e1]
  have i1: "instance_of (take (length h) h1) this = Some p" by simp
  from sim_consume_loop [OF v1 f1 i1, of ToNumber ?ctx] obtain r h2 where
    loop: "consume_loop_s ToNumber this ?ctx fr h1 = Some (r, h2)"
    and w2: "only_frame_written fr h1 h2"
    and c2: "case consume_loop ToNumber p ?ctx (initial_state p tokens) of
              Inl e \<Rightarrow> r = Inl e
            | Inr (Return result) \<Rightarrow> r = Inr (Return_s help_result_s) \<and> result = help_result
            | Inr (Fallthrough st') \<Rightarrow> r = Inr Fallthrough_s \<and> view h2 fr = Some st'"
    by (auto simp: loop_post_def)
  from only_frame_written_take [OF w2 f1] extends_take [OF e1]
  have t2: "take (length h) h2 = h" by simp
  then have e2: "extends h h2" by (rule take_extends)
  have f2: "frame_ok (length h) (length h2) fr" by (rule frame_ok_after [OF w2 f1])
  show ?thesis
  proof (cases "consume_loop ToNumber p ?ctx (initial_state p tokens)")
    case (Inl e)
    with c2 pro loop e2 show ?thesis
      by (simp add: parse_s_def parse_def parse_from_def outcome_of_def outcome_refs_def)
  next
    case (Inr exit)
    show ?thesis
    proof (cases exit)
      case (Return result)
      with Inr c2 pro loop e2 show ?thesis
        by (simp add: parse_s_def parse_def parse_from_def outcome_of_def outcome_refs_def
              read_result_def help_result_s_def help_result_def result_refs_def)
    next
      case (Fallthrough st')
      with Inr c2 have r: "r = Inr Fallthrough_s" and v2: "view h2 fr = Some st'" by simp_all
      from t2 assms(1) have i2: "instance_of (take (length h) h2) this = Some p" by simp
      from p1 only_frame_written_paramDefinitions [OF w2 f1]
      have p2: "params_at h2 (v_paramDefinitions fr) = Some (paramDefinitions_of p)" by simp
      from sim_validation_stage [OF v2 f2 i2 p2, of ?ctx] obtain r3 h3 where
        val: "validation_stage_s this ?ctx fr h2 = (r3, h3)"
        and w3: "only_frame_written fr h2 h3"
        and c3: "case validation_stage p ?ctx st' of
                 Inl e \<Rightarrow> r3 = Inl e
               | Inr result \<Rightarrow>
                   (\<exists>ro. r3 = Inr ro \<and> read_result h3 ro = result
                      \<and> result_refs ro \<subseteq> set (frame_refs fr))"
        by blast
      from only_frame_written_take [OF w3 f2] t2 have "take (length h) h3 = h" by simp
      then have e3: "extends h h3" by (rule take_extends)
      from frame_ok_after [OF w3 f2] have f3: "\<forall>a \<in> set (frame_refs fr). length h \<le> a \<and> a < length h3"
        by (simp add: frame_ok_def)
      have run: "parse_s ToNumber this sequence args_ref dir h = Some (r3, h3)"
        using pro loop r val by (simp add: parse_s_def)
      have res: "parse ToNumber p sequence tokens dir = validation_stage p ?ctx st'"
        using Inr Fallthrough by (simp add: parse_def parse_from_def)
      from c3 f3 have "outcome_of h3 r3 = validation_stage p ?ctx st'
          \<and> (\<forall>a \<in> outcome_refs r3. length h \<le> a \<and> a < length h3)"
        by (cases "validation_stage p ?ctx st'") (auto simp: outcome_of_def outcome_refs_def)
      with run res e3 show ?thesis by simp
    qed
  qed
qed

subsection \<open>An example store\<close>

text \<open>
  The first example parser as an object in a store, with two token arrays of a caller.
\<close>

definition demo_store :: store where
  "demo_store =
     [ParamArray demo_params,
      OptionArray demo_options,
      OptionTable (case optionDefinitionMap demo_parser of
                     None \<Rightarrow> empty_definition_table | Some table \<Rightarrow> table),
      FlagTable (case optionFlagMapping demo_parser of None \<Rightarrow> [] | Some table \<Rightarrow> table),
      StringArray [''x'', ''-v'', ''-o'', ''f''],
      StringArray [''y'', ''--help'']]"

definition demo_object :: ArgsParser_object where
  "demo_object =
     \<lparr>this_paramDefinitions = Some 0, this_paramsDefinition = None,
      this_optionDefinitions = Some 1, this_requiredParamsNumber = 1,
      this_optionDefinitionMap = Some 2, this_optionFlagMapping = Some 3\<rparr>"

lemma demo_instance: "instance_of demo_store demo_object = Some demo_parser"
  by (simp add: instance_of_def deref_def reads_defs object_at_def demo_store_def demo_object_def
        schema_defs)

lemma demo_tokens:
  "strings_at demo_store 4 = Some [''x'', ''-v'', ''-o'', ''f'']"
  "strings_at demo_store 5 = Some [''y'', ''--help'']"
  by (simp_all add: reads_defs object_at_def demo_store_def)

lemmas store_defs = demo_store_def demo_object_def parse_s_def prologue_s_def option_tables_s_def
  alloc_def Let_def reads_defs object_at_def consume_loop_s_Cons consume_loop_s_Nil
  consumeToken_s_def consumeArgument_s_def consumeToggleOrOption_s_def consumeOption_s_def
  assign_commandOption_s_def delete_requiredOption_s_def assign_requiredOption_s_def
  own_property_s_def own_property_def own_definitions_at_def read_definition_s_def
  read_definition_def validation_stage_s_def is_help_def char_at_def castArgument_def
  Object_keys_def help_result_s_def

lemma demo_run_1:
  "\<exists>h'. parse_s ToNumber_digits demo_object [''demo''] 4 ''/'' demo_store =
     Some (Inr \<lparr>ref_args = Some 7, ref_extraArgs = Some 8, ref_options = Some 9,
                val_context = Some \<lparr>cwd = ''/'', commands = [''demo'']\<rparr>, val_help = None\<rparr>, h')
     \<and> take 6 h' = demo_store \<and> values_at h' 7 = Some [VString ''x'', VString ''dflt'']"
  by (simp add: store_defs schema_defs)

section \<open>Calls do not interfere\<close>

text \<open>
  Claim C9: a call of \<open>parse\<close> works on objects it allocates itself (the copy of the
  token array, the accumulators, the option table, the table of missing required options,
  the copy of the parameter definitions): every reference in its result is to an object
  allocated during the call. It mutates neither the caller's token array nor the tables
  and arrays of the parser object: after two calls in a row on the same parser object,
  the store as it was before the first call is unchanged, the parser object stands for
  the same instance and the token arrays are as they were. So each of the two calls, with
  the same or different token arrays, returns what \<open>parse\<close> returns on its own inputs,
  which is what the call returns when it is the only one; the result of the first call
  reads the same after the second; and two calls with identical inputs return equal
  results.
\<close>

theorem parse_calls_independent:
  assumes "instance_of h this = Some p"
    and "strings_at h ref1 = Some tokens1"
    and "strings_at h ref2 = Some tokens2"
  shows "\<exists>r1 h1 r2 h2.
           parse_s ToNumber this seq1 ref1 dir1 h = Some (r1, h1)
           \<and> parse_s ToNumber this seq2 ref2 dir2 h1 = Some (r2, h2)
           \<and> take (length h) h1 = h \<and> take (length h1) h2 = h1
           \<and> take (length h) h2 = h
           \<and> instance_of h2 this = Some p
           \<and> strings_at h2 ref1 = Some tokens1 \<and> strings_at h2 ref2 = Some tokens2
           \<and> (\<forall>a \<in> outcome_refs r1. length h \<le> a \<and> a < length h1)
           \<and> (\<forall>a \<in> outcome_refs r2. length h1 \<le> a \<and> a < length h2)
           \<and> outcome_of h1 r1 = parse ToNumber p seq1 tokens1 dir1
           \<and> outcome_of h2 r1 = parse ToNumber p seq1 tokens1 dir1
           \<and> outcome_of h2 r2 = parse ToNumber p seq2 tokens2 dir2
           \<and> (\<exists>r h'. parse_s ToNumber this seq2 ref2 dir2 h = Some (r, h')
                  \<and> outcome_of h' r = outcome_of h2 r2)
           \<and> (tokens2 = tokens1 \<and> seq2 = seq1 \<and> dir2 = dir1 \<longrightarrow>
                  outcome_of h2 r2 = outcome_of h2 r1)"
proof -
  from parse_s_refines [OF assms(1,2), of ToNumber seq1 dir1] obtain r1 h1 where
    c1: "parse_s ToNumber this seq1 ref1 dir1 h = Some (r1, h1)"
    and e1: "extends h h1"
    and o1: "outcome_of h1 r1 = parse ToNumber p seq1 tokens1 dir1"
    and f1: "\<forall>a \<in> outcome_refs r1. length h \<le> a \<and> a < length h1"
    by blast
  from instance_of_extends [OF assms(1) e1] have i1: "instance_of h1 this = Some p" .
  from assms(2,3) reads_in_range(1) e1
  have s1: "strings_at h1 ref1 = Some tokens1" "strings_at h1 ref2 = Some tokens2"
    by (simp_all add: extends_reads)
  from parse_s_refines [OF i1 s1(2), of ToNumber seq2 dir2] obtain r2 h2 where
    c2: "parse_s ToNumber this seq2 ref2 dir2 h1 = Some (r2, h2)"
    and e2: "extends h1 h2"
    and o2: "outcome_of h2 r2 = parse ToNumber p seq2 tokens2 dir2"
    and f2: "\<forall>a \<in> outcome_refs r2. length h1 \<le> a \<and> a < length h2"
    by blast
  from instance_of_extends [OF i1 e2] have i2: "instance_of h2 this = Some p" .
  from s1 reads_in_range(1) e2
  have s2: "strings_at h2 ref1 = Some tokens1" "strings_at h2 ref2 = Some tokens2"
    by (simp_all add: extends_reads)
  from f1 have "\<forall>a \<in> outcome_refs r1. a < length h1" by simp
  from outcome_of_extends [OF e2 this] o1
  have o12: "outcome_of h2 r1 = parse ToNumber p seq1 tokens1 dir1" by simp
  from parse_s_refines [OF assms(1,3), of ToNumber seq2 dir2] o2
  have alone: "\<exists>r h'. parse_s ToNumber this seq2 ref2 dir2 h = Some (r, h')
                  \<and> outcome_of h' r = outcome_of h2 r2"
    by auto
  from o12 o2 have same: "tokens2 = tokens1 \<and> seq2 = seq1 \<and> dir2 = dir1 \<longrightarrow>
                  outcome_of h2 r2 = outcome_of h2 r1"
    by simp
  from c1 c2 extends_take [OF e1] extends_take [OF e2]
    extends_take [OF extends_trans [OF e1 e2]] i2 s2 f1 f2 o1 o12 o2 alone same
  show ?thesis by blast
qed

theorem parse_calls_independent_witness:
  "instance_of demo_store demo_object = Some demo_parser
   \<and> strings_at demo_store 4 = Some [''x'', ''-v'', ''-o'', ''f'']
   \<and> strings_at demo_store 5 = Some [''y'', ''--help'']
   \<and> (\<exists>r1 h1 r2 h2.
         parse_s ToNumber_digits demo_object [''demo''] 4 ''/'' demo_store = Some (r1, h1)
         \<and> parse_s ToNumber_digits demo_object [''demo''] 5 ''/'' h1 = Some (r2, h2)
         \<and> take (length demo_store) h2 = demo_store
         \<and> outcome_of h2 r1 =
             Inr \<lparr>res_args = Some [VString ''x'', VString ''dflt''],
                  res_extraArgs = Some [],
                  res_options =
                    Some [(''name'', Undefined), (''verbose'', VBoolean True),
                          (''output'', VString ''f'')],
                  res_context = Some \<lparr>cwd = ''/'', commands = [''demo'']\<rparr>,
                  res_help = None\<rparr>
         \<and> outcome_of h2 r2 = Inr help_result)"
proof -
  from parse_calls_independent [OF demo_instance demo_tokens,
      of ToNumber_digits "[''demo'']" "''/''" "[''demo'']" "''/''"]
  obtain r1 h1 r2 h2 where
    c: "parse_s ToNumber_digits demo_object [''demo''] 4 ''/'' demo_store = Some (r1, h1)"
       "parse_s ToNumber_digits demo_object [''demo''] 5 ''/'' h1 = Some (r2, h2)"
    and t: "take (length demo_store) h2 = demo_store"
    and o: "outcome_of h2 r1 =
              parse ToNumber_digits demo_parser [''demo''] [''x'', ''-v'', ''-o'', ''f''] ''/''"
       "outcome_of h2 r2 = parse ToNumber_digits demo_parser [''demo''] [''y'', ''--help''] ''/''"
    by blast
  have p1: "parse ToNumber_digits demo_parser [''demo''] [''x'', ''-v'', ''-o'', ''f''] ''/'' =
             Inr \<lparr>res_args = Some [VString ''x'', VString ''dflt''],
                  res_extraArgs = Some [],
                  res_options =
                    Some [(''name'', Undefined), (''verbose'', VBoolean True),
                          (''output'', VString ''f'')],
                  res_context = Some \<lparr>cwd = ''/'', commands = [''demo'']\<rparr>,
                  res_help = None\<rparr>"
    by (simp add: parse_def parse_from_def schema_defs step_defs validation_stage_def
          Object_keys_def)
  have p2: "parse ToNumber_digits demo_parser [''demo''] [''y'', ''--help''] ''/'' = Inr help_result"
    by (simp add: parse_def parse_from_def schema_defs step_defs)
  from t c o p1 p2 demo_instance demo_tokens show ?thesis by auto
qed

end
